theory Spec2Isabelle
  imports Complex_Main "HOL-Library.AList" "HOL-Library.Sublist" "HOL-Library.Log_Nat"
begin

section \<open>The image watermarking hook \<open>useWatermark\<close>\<close>

text \<open>
  The hook (source file \<open>part_000\<close>) bakes a text watermark into eligible images through
  a canvas and falls back to a tiled overlay when baking fails. This theory embeds its
  functions: the eligibility filter \<open>exclude\<close>, the loader \<open>ensureLoaded\<close>, the text
  measurement and the layout arithmetic of \<open>bakeWatermark\<close>, the overlay fallback
  \<open>setOverlay\<close>, the processing step \<open>process\<close>, the two observer callbacks and the
  cleanup of the effect.

  JavaScript numbers are binary64 values. The arithmetic of the layout is embedded with
  their rounding: a product such as \<open>w * 0.7\<close> is the binary64 value nearest to the
  product of \<open>w\<close> and the binary64 value nearest to 0.7.
\<close>

subsection \<open>Elements\<close>

text \<open>
  One record holds what the code reads and writes on an element: its tag, the attributes
  the selectors test, the \<open>dataset\<close> entries (\<open>noWm\<close>, \<open>wmProcessed\<close>, \<open>wmUrl\<close>), the
  class list, the \<open>src\<close> property, the computed \<open>position\<close> style, and for images the
  intrinsic size, the \<open>width\<close>/\<open>height\<close> properties, the \<open>complete\<close> flag, \<open>currentSrc\<close>
  and the size of the bounding client rectangle.
\<close>

record elem =
  tag :: string
  attrs :: "(string \<times> string) list"
  dataset :: "(string \<times> string) list"
  classList :: "string list"
  src :: string
  currentSrc :: string
  position :: string
  naturalWidth :: nat
  naturalHeight :: nat
  width :: nat
  height :: nat
  complete :: bool
  rect_width :: real
  rect_height :: real
  textContent :: string

text \<open>\<open>a || b\<close> on numbers: the first operand unless it is zero.\<close>

definition or_else :: "'a::zero \<Rightarrow> 'a \<Rightarrow> 'a" where
  "or_else a b = (if a \<noteq> 0 then a else b)"

text \<open>\<open>a || b\<close> on strings: the first operand unless it is empty.\<close>

definition or_else_str :: "string \<Rightarrow> string \<Rightarrow> string" where
  "or_else_str a b = (if a \<noteq> [] then a else b)"

subsection \<open>Numbers\<close>

text \<open>
  A JavaScript number is a binary64 value; a finite one is embedded as the real number it
  denotes. Every arithmetic operation of the code gives the binary64 value nearest to the
  exact result, a tie going to the even significand, and a decimal literal such as \<open>0.7\<close>
  denotes the binary64 value nearest to it. \<open>rnd64\<close> is that rounding: \<open>expo x\<close> is the
  exponent \<open>e\<close> with \<open>2^e \<le> x < 2^(e+1)\<close>, and \<open>ulp x\<close> is the spacing of the binary64
  values around \<open>x\<close>, which is \<open>2^(e-52)\<close> and never less than \<open>2^(-1074)\<close>. A result of
  magnitude \<open>2^1024\<close> or more is \<open>Infinity\<close> in JavaScript; that takes pixel sizes or glyph
  widths beyond \<open>10^300\<close> and is not embedded.
\<close>

definition expo :: "real \<Rightarrow> int" where
  "expo x =
     (if 1 \<le> x then bitlen \<lfloor>x\<rfloor> - 1
      else let k = bitlen \<lfloor>1 / x\<rfloor> - 1 in if x * 2 ^ nat k = 1 then - k else - k - 1)"

definition ulp :: "real \<Rightarrow> real" where
  "ulp x = 2 powi (max (expo x - 52) (- 1074))"

definition round_even :: "real \<Rightarrow> int" where
  "round_even m =
     (let f = \<lfloor>m\<rfloor>; d = m - of_int f
      in if d < 1 / 2 then f else if 1 / 2 < d then f + 1 else if even f then f else f + 1)"

definition rnd64 :: "real \<Rightarrow> real" where
  "rnd64 x = (if x = 0 then 0 else of_int (round_even (x / ulp \<bar>x\<bar>)) * ulp \<bar>x\<bar>)"

text \<open>The operators \<open>*\<close>, \<open>/\<close>, \<open>+\<close> and \<open>-\<close> of the code.\<close>

definition fmul :: "real \<Rightarrow> real \<Rightarrow> real" where
  "fmul x y = rnd64 (x * y)"

definition fdiv :: "real \<Rightarrow> real \<Rightarrow> real" where
  "fdiv x y = rnd64 (x / y)"

definition fadd :: "real \<Rightarrow> real \<Rightarrow> real" where
  "fadd x y = rnd64 (x + y)"

definition fsub :: "real \<Rightarrow> real \<Rightarrow> real" where
  "fsub x y = rnd64 (x - y)"

text \<open>
  For the proofs only, not computed by the code: \<open>d\<close> lies on the grid of spacing \<open>2^j\<close> and
  has at most 53 bits there. Every result of \<open>rnd64\<close> does, for some \<open>j\<close>.
\<close>

definition on_grid :: "real \<Rightarrow> int \<Rightarrow> bool" where
  "on_grid d j \<longleftrightarrow> (\<exists>k::int. d = of_int k * 2 powi j) \<and> \<bar>d\<bar> \<le> 2 powi (j + 53)"

text \<open>
  \<open>Math.round\<close>: the nearest integer, a half rounded up. It is exact on the binary64 value
  it is given, as are \<open>Math.floor\<close>, \<open>Math.max\<close> and \<open>Math.min\<close>.
\<close>

definition js_round :: "real \<Rightarrow> int" where
  "js_round x = \<lfloor>x + 1 / 2\<rfloor>"

subsection \<open>Eligibility filter\<close>

text \<open>
  Lines 24 to 31. The parameter is typed \<open>HTMLImageElement\<close>, so the test \<open>!img\<close> is
  false for every element and has no branch here.
\<close>

definition exclude :: "elem \<Rightarrow> bool" where
  "exclude img =
     (if map_of (dataset img) ''noWm'' = Some ''true'' then True
      else if ''no-wm'' \<in> set (classList img) then True
      else
        let w = or_else (naturalWidth img) (or_else (width img) 0);
            h = or_else (naturalHeight img) (or_else (height img) 0)
        in if w < 120 \<or> h < 120 then True else False)"

definition alreadyProcessed :: "elem \<Rightarrow> bool" where
  "alreadyProcessed img = (map_of (dataset img) ''wmProcessed'' = Some ''1'')"

definition markProcessed :: "elem \<Rightarrow> elem" where
  "markProcessed img = img\<lparr>dataset := AList.update ''wmProcessed'' ''1'' (dataset img)\<rparr>"

subsection \<open>Text measurement and layout\<close>

text \<open>
  \<open>toUpperCase\<close> on the ASCII letters; the watermark text has no other letters.
\<close>

definition upper_char :: "char \<Rightarrow> char" where
  "upper_char c =
     (let n = (of_char c :: nat) in if 97 \<le> n \<and> n \<le> 122 then char_of (n - 32) else c)"

definition toUpperCase :: "string \<Rightarrow> string" where
  "toUpperCase s = map upper_char s"

text \<open>
  The loop of \<open>measureTextWithSpacing\<close> over the upper-cased characters, with the running
  width \<open>w\<close>: \<open>w += m.width\<close> for each character and \<open>w += letterSpacing\<close> after every
  character but the last. The glyph widths come from the canvas context at its current
  font; \<open>glyph\<close> is that measurement.
\<close>

fun measure_loop :: "(char \<Rightarrow> real) \<Rightarrow> real \<Rightarrow> string \<Rightarrow> real \<Rightarrow> real" where
  "measure_loop glyph letterSpacing [] w = w"
| "measure_loop glyph letterSpacing [c] w = fadd w (glyph c)"
| "measure_loop glyph letterSpacing (c # d # cs) w =
     measure_loop glyph letterSpacing (d # cs) (fadd (fadd w (glyph c)) letterSpacing)"

definition measureTextWithSpacing :: "(char \<Rightarrow> real) \<Rightarrow> string \<Rightarrow> real \<Rightarrow> real" where
  "measureTextWithSpacing glyph text letterSpacing =
     measure_loop glyph letterSpacing (toUpperCase text) 0"

definition TEXT :: string where
  "TEXT = ''ashishproperties.in''"

text \<open>
  What lines 104 to 129 of \<open>bakeWatermark\<close> compute before drawing. \<open>measureText f c\<close> is
  the width the context reports for character \<open>c\<close> once \<open>ctx.font\<close> is set to \<open>f\<close> pixels;
  \<open>w\<close> and \<open>h\<close> are the intrinsic size read after loading (the raster size). The font size
  and the margin are integers, being results of \<open>Math.round\<close> and \<open>Math.floor\<close>.
\<close>

record layout =
  fontPx :: int
  letterSpacing :: int
  textW :: real
  margin :: int
  xStart :: real
  baseline :: real

definition dispW :: "elem \<Rightarrow> nat \<Rightarrow> real" where
  "dispW img w = max 1 (or_else (rect_width img) (or_else (of_nat (width img)) (of_nat w)))"

definition dispH :: "elem \<Rightarrow> nat \<Rightarrow> real" where
  "dispH img h = max 1 (or_else (rect_height img) (or_else (of_nat (height img)) (of_nat h)))"

definition baseFontPx :: "elem \<Rightarrow> nat \<Rightarrow> nat \<Rightarrow> int" where
  "baseFontPx img w h =
     (let base = min (dispW img w) (dispH img h)
      in max 24 (js_round (fmul base (rnd64 (16 / 100)))))"

definition baseTextW :: "(int \<Rightarrow> char \<Rightarrow> real) \<Rightarrow> string \<Rightarrow> elem \<Rightarrow> nat \<Rightarrow> nat \<Rightarrow> real" where
  "baseTextW measureText txt img w h =
     (let fontPx0 = baseFontPx img w h;
          letterSpacingPx = js_round (fmul (of_int fontPx0) (rnd64 (6 / 100)))
      in measureTextWithSpacing (measureText fontPx0) (toUpperCase txt) (of_int letterSpacingPx))"

definition maxWidth :: "nat \<Rightarrow> real" where
  "maxWidth w = fmul (of_nat w) (rnd64 (7 / 10))"

definition bake_layout :: "(int \<Rightarrow> char \<Rightarrow> real) \<Rightarrow> string \<Rightarrow> elem \<Rightarrow> nat \<Rightarrow> nat \<Rightarrow> layout" where
  "bake_layout measureText txt img w h =
     (let fontPx0 = baseFontPx img w h;
          text = toUpperCase txt;
          textW0 = baseTextW measureText txt img w h;
          maxW = maxWidth w;
          fontPx1 = (if textW0 > maxW
                     then max 18 \<lfloor>fmul (of_int fontPx0) (fdiv maxW textW0)\<rfloor>
                     else fontPx0);
          textW1 = (if textW0 > maxW
                    then measureTextWithSpacing (measureText fontPx1) text
                           (of_int (js_round (fmul (of_int fontPx1) (rnd64 (6 / 100)))))
                    else textW0);
          margin = max 12 (js_round (fmul (of_nat (min w h)) (rnd64 (35 / 1000))))
      in \<lparr>fontPx = fontPx1,
          letterSpacing = js_round (fmul (of_int fontPx1) (rnd64 (6 / 100))),
          textW = textW1,
          margin = margin,
          xStart = max 0 (fsub (fsub (of_nat w) textW1) (of_int margin)),
          baseline = max (fadd (of_int fontPx1) (of_int margin))
                         (fsub (of_nat h) (of_int margin))\<rparr>)"

subsection \<open>The element tree\<close>

text \<open>
  The elements live in a tree; an element is named by the path of child indices from the
  root. The root has no parent element, so an image that is the root is a detached image.
\<close>

datatype node = Node (el: elem) (kids: "node list")

type_synonym path = "nat list"

fun node_at :: "node \<Rightarrow> path \<Rightarrow> node option" where
  "node_at n [] = Some n"
| "node_at n (i # p) = (if i < length (kids n) then node_at (kids n ! i) p else None)"

fun update_at :: "path \<Rightarrow> (node \<Rightarrow> node) \<Rightarrow> node \<Rightarrow> node" where
  "update_at [] f n = f n"
| "update_at (i # p) f n =
     (if i < length (kids n)
      then Node (el n) ((kids n)[i := update_at p f (kids n ! i)])
      else n)"

definition update_el :: "path \<Rightarrow> (elem \<Rightarrow> elem) \<Rightarrow> node \<Rightarrow> node" where
  "update_el p f = update_at p (\<lambda>n. Node (f (el n)) (kids n))"

definition parentElement :: "path \<Rightarrow> path option" where
  "parentElement p = (if p = [] then None else Some (butlast p))"

text \<open>
  The selector list of \<open>img.closest(...)\<close> in \<open>setOverlay\<close>:
  \<open>[data-role=property-hero], .property-hero, .lightbox, [role=dialog]\<close>.
\<close>

definition matches_host :: "elem \<Rightarrow> bool" where
  "matches_host e =
     (map_of (attrs e) ''data-role'' = Some ''property-hero''
      \<or> ''property-hero'' \<in> set (classList e)
      \<or> ''lightbox'' \<in> set (classList e)
      \<or> map_of (attrs e) ''role'' = Some ''dialog'')"

definition host_at :: "node \<Rightarrow> path \<Rightarrow> bool" where
  "host_at doc q = (case node_at doc q of None \<Rightarrow> False | Some n \<Rightarrow> matches_host (el n))"

text \<open>
  \<open>closest\<close> tests the element itself, then its parent, and so on up to the root: the
  prefixes of the path, the longest first.
\<close>

definition closest :: "node \<Rightarrow> path \<Rightarrow> path option" where
  "closest doc p = List.find (host_at doc) (rev (prefixes p))"

definition is_overlay :: "elem \<Rightarrow> bool" where
  "is_overlay e = (map_of (attrs e) ''data-wm-overlay'' = Some ''1'')"

text \<open>The number of elements of a subtree that carry \<open>data-wm-overlay='1'\<close>.\<close>

fun overlays :: "node \<Rightarrow> nat" where
  "overlays (Node e ks) = (if is_overlay e then 1 else 0) + sum_list (map overlays ks)"

text \<open>
  \<open>host.querySelector("[data-wm-overlay='1']")\<close> searches the descendants of the host,
  not the host itself; it finds one exactly when this count is positive.
\<close>

definition inner_overlays :: "node \<Rightarrow> nat" where
  "inner_overlays n = sum_list (map overlays (kids n))"

subsection \<open>Overlay fallback\<close>

definition new_elem :: "string \<Rightarrow> elem" where
  "new_elem t =
     \<lparr>tag = t, attrs = [], dataset = [], classList = [], src = [], currentSrc = [],
      position = ''static'', naturalWidth = 0, naturalHeight = 0, width = 0, height = 0,
      complete = False, rect_width = 0, rect_height = 0, textContent = []\<rparr>"

text \<open>
  The overlay \<open>div\<close> of lines 187 to 228 for an image: its two attributes, its absolute
  position and one text tile per cell of the grid. The remaining styles of the overlay
  and of the tiles (colours, rotation, font) change nothing any function reads and are
  left out.
\<close>

definition make_overlay :: "elem \<Rightarrow> node" where
  "make_overlay img =
     (let dW = max 1 (or_else (rect_width img) (of_nat (width img)));
          dH = max 1 (or_else (rect_height img) (of_nat (height img)));
          tileCountX = max 3 (js_round (fdiv dW 160));
          tileCountY = max 2 (js_round (fdiv dH 120));
          tile = Node ((new_elem ''div'')\<lparr>textContent := TEXT\<rparr>) []
      in Node ((new_elem ''div'')
                 \<lparr>attrs := [(''data-wm-overlay'', ''1''), (''aria-hidden'', ''true'')],
                  position := ''absolute''\<rparr>)
              (replicate (nat (tileCountY * tileCountX)) tile))"

text \<open>The host the overlay goes to: \<open>img.closest(...) || img.parentElement\<close>.\<close>

definition host_of :: "node \<Rightarrow> path \<Rightarrow> path option" where
  "host_of doc p = (case closest doc p of Some q \<Rightarrow> Some q | None \<Rightarrow> parentElement p)"

definition attach :: "node \<Rightarrow> node \<Rightarrow> node" where
  "attach overlay host =
     Node ((el host)\<lparr>position :=
             (if position (el host) = ''static'' then ''relative'' else position (el host))\<rparr>)
          (kids host @ [overlay])"

text \<open>
  Lines 176 to 231. A path that names no element of the tree leaves the tree as it is:
  the code is only ever handed elements.
\<close>

definition setOverlay :: "path \<Rightarrow> node \<Rightarrow> node" where
  "setOverlay p doc =
     (case node_at doc p of
        None \<Rightarrow> doc
      | Some img \<Rightarrow>
          (case host_of doc p of
             None \<Rightarrow> doc
           | Some q \<Rightarrow>
               (case node_at doc q of
                  None \<Rightarrow> doc
                | Some host \<Rightarrow>
                    if inner_overlays host > 0 then doc
                    else update_at q (attach (make_overlay (el img))) doc)))"

subsection \<open>Promises and the environment of a bake\<close>

text \<open>
  How a promise ends: it resolves with a value, rejects with an error, or stays pending
  for ever. The errors are named after the messages of the \<open>Error\<close> objects the code
  creates (\<open>img-error\<close>, \<open>no-size\<close>, \<open>cors-blocked\<close>, \<open>ctx\<close>, \<open>toDataURL\<close>, \<open>tainted\<close>).
\<close>

datatype error = E_img_error | E_no_size | E_cors_blocked | E_ctx | E_toDataURL | E_tainted

datatype 'a promise = Pending | Rejected error | Resolved 'a

text \<open>
  A \<open>load\<close> event (the intrinsic size is known from then on) or an \<open>error\<close> event.
\<close>

datatype signal = LoadEvent nat nat | ErrorEvent

datatype blob_result = Throws | Callback "string option" | NoCallback

record canvas =
  cw :: nat
  ch :: nat
  painted :: string
  drawn :: layout

text \<open>
  What the browser does during one bake, which the code can only wait for:
  \<^item> \<open>img_signal\<close>: how the fetch of the image ends, if it ends;
  \<^item> \<open>off_signal\<close>: how the fetch of the cross-origin copy ends, if it ends;
  \<^item> \<open>getContext\<close>: whether the canvas yields a 2d context;
  \<^item> \<open>measureText\<close>: the glyph widths at a font size, binary64 values;
  \<^item> \<open>toBlob\<close>: \<open>canvas.toBlob\<close> throws, calls back with a blob (given here by the URL
    that \<open>URL.createObjectURL\<close> issues for it) or with \<open>null\<close>, or never calls back;
  \<^item> \<open>toDataURL\<close>: the data URL, or \<open>None\<close> when \<open>canvas.toDataURL\<close> throws.
\<close>

record env =
  img_signal :: "signal option"
  off_signal :: "signal option"
  getContext :: bool
  measureText :: "int \<Rightarrow> char \<Rightarrow> real"
  toBlob :: "canvas \<Rightarrow> blob_result"
  toDataURL :: "canvas \<Rightarrow> string option"

text \<open>
  The browser, not the code: it dispatches \<open>load\<close> or \<open>error\<close> on an image at the end of
  a fetch in progress. An image whose \<open>complete\<close> flag is set has no fetch in progress,
  so listeners attached to it then hear nothing for its current source.
\<close>

definition dispatched :: "elem \<Rightarrow> signal option \<Rightarrow> signal option" where
  "dispatched img sig = (if complete img then None else sig)"

text \<open>
  Lines 39 to 56. The promise resolves at once for a complete image of positive intrinsic
  width; otherwise it settles with the first event its listeners hear. The result is the
  image as it is when the promise resolves.
\<close>

definition ensureLoaded :: "signal option \<Rightarrow> elem \<Rightarrow> elem promise" where
  "ensureLoaded heard img =
     (if complete img \<and> naturalWidth img > 0 then Resolved img
      else (case heard of
              None \<Rightarrow> Pending
            | Some (LoadEvent w h) \<Rightarrow>
                Resolved (img\<lparr>naturalWidth := w, naturalHeight := h, complete := True\<rparr>)
            | Some ErrorEvent \<Rightarrow> Rejected E_img_error))"

text \<open>Lines 74 to 173.\<close>

definition bakeWatermark :: "env \<Rightarrow> elem \<Rightarrow> string promise" where
  "bakeWatermark env img =
     (case ensureLoaded (dispatched img (img_signal env)) img of
        Pending \<Rightarrow> Pending
      | Rejected e \<Rightarrow> Rejected e
      | Resolved img1 \<Rightarrow>
          let w = naturalWidth img1; h = naturalHeight img1 in
          if w = 0 \<or> h = 0 then Rejected E_no_size
          else
            let s = or_else_str (currentSrc img1) (src img1) in
            (case off_signal env of
               None \<Rightarrow> Pending
             | Some ErrorEvent \<Rightarrow> Rejected E_cors_blocked
             | Some (LoadEvent ow oh) \<Rightarrow>
                 if \<not> getContext env then Rejected E_ctx
                 else
                   let c = \<lparr>cw = w, ch = h, painted = s,
                            drawn = bake_layout (measureText env) TEXT img1 w h\<rparr>
                   in (case toBlob env c of
                         Throws \<Rightarrow> Rejected E_tainted
                       | NoCallback \<Rightarrow> Pending
                       | Callback (Some url) \<Rightarrow> Resolved url
                       | Callback None \<Rightarrow>
                           (case toDataURL env c of
                              Some d \<Rightarrow> Resolved d
                            | None \<Rightarrow> Rejected E_toDataURL))))"

subsection \<open>The engine's state\<close>

text \<open>
  A mutation record, with the fields the callback reads. \<open>effect\<close> is a log of what the
  processing step did, in order; the code keeps no such log, the theory does, to speak
  about order and number of its actions.
\<close>

datatype mutation =
  Mutation (mtype: string) (target: path) (attributeName: string) (addedNodes: "path list")

datatype effect =
  SetSrc path string | SetWmUrl path string | Revoke string | Mark path | Overlay path

record state =
  doc :: node
  observed :: "path list"
  mo_connected :: bool
  mo_queue :: "mutation list"
  inflight :: "path list"
  revoked :: "string list"
  trace :: "effect list"

text \<open>
  Writing the \<open>src\<close> of an element, by anyone: the attribute changes, and a connected
  mutation observer (it watches \<open>src\<close> in the whole subtree) is queued a record for it.
\<close>

definition set_src :: "path \<Rightarrow> string \<Rightarrow> state \<Rightarrow> state" where
  "set_src p url st =
     st\<lparr>doc := update_el p (\<lambda>e. e\<lparr>src := url\<rparr>) (doc st),
        mo_queue := (if mo_connected st
                     then mo_queue st @ [Mutation ''attributes'' p ''src'' []]
                     else mo_queue st)\<rparr>"

definition log :: "effect \<Rightarrow> state \<Rightarrow> state" where
  "log e st = st\<lparr>trace := trace st @ [e]\<rparr>"

definition revokeObjectURL :: "string \<Rightarrow> state \<Rightarrow> state" where
  "revokeObjectURL u st = log (Revoke u) (st\<lparr>revoked := revoked st @ [u]\<rparr>)"

definition startsWith :: "string \<Rightarrow> string \<Rightarrow> bool" where
  "startsWith s pre = (take (length pre) s = pre)"

definition io_observe :: "path \<Rightarrow> state \<Rightarrow> state" where
  "io_observe p st = (if p \<in> set (observed st) then st else st\<lparr>observed := observed st @ [p]\<rparr>)"

definition io_unobserve :: "path \<Rightarrow> state \<Rightarrow> state" where
  "io_unobserve p st = st\<lparr>observed := removeAll p (observed st)\<rparr>"

subsection \<open>The processing step\<close>

text \<open>
  \<open>process\<close> is asynchronous. \<open>process_start\<close> is its run up to the \<open>await\<close> of line 236:
  the element is skipped, or a bake is in flight for it. \<open>process_settle\<close> is the rest,
  lines 237 to 253, run on the state as it is when the bake settles. The first component
  of its result is how the promise of \<open>process\<close> itself ends.
\<close>

definition skips :: "elem \<Rightarrow> bool" where
  "skips img = (alreadyProcessed img \<or> exclude img)"

definition process_start :: "path \<Rightarrow> state \<Rightarrow> state" where
  "process_start p st =
     (case node_at (doc st) p of
        None \<Rightarrow> st
      | Some n \<Rightarrow> if skips (el n) then st else st\<lparr>inflight := inflight st @ [p]\<rparr>)"

definition install :: "path \<Rightarrow> string \<Rightarrow> elem \<Rightarrow> state \<Rightarrow> state" where
  "install p url img st =
     (let prev = map_of (dataset img) ''wmUrl'';
          st1 = log (SetSrc p url) (set_src p url st);
          st2 = log (SetWmUrl p url)
                  (st1\<lparr>doc := update_el p
                     (\<lambda>e. e\<lparr>dataset := AList.update ''wmUrl'' url (dataset e)\<rparr>) (doc st1)\<rparr>);
          st3 = (case prev of
                   None \<Rightarrow> st2
                 | Some pr \<Rightarrow>
                     if pr \<noteq> [] \<and> startsWith pr ''blob:'' then revokeObjectURL pr st2 else st2)
      in log (Mark p) (st3\<lparr>doc := update_el p markProcessed (doc st3)\<rparr>))"

definition fallback :: "path \<Rightarrow> state \<Rightarrow> state" where
  "fallback p st =
     (let st1 = log (Overlay p) (st\<lparr>doc := setOverlay p (doc st)\<rparr>)
      in log (Mark p) (st1\<lparr>doc := update_el p markProcessed (doc st1)\<rparr>))"

definition process_settle :: "string promise \<Rightarrow> path \<Rightarrow> state \<Rightarrow> unit promise \<times> state" where
  "process_settle out p st =
     (case out of
        Pending \<Rightarrow> (Pending, st)
      | Rejected e \<Rightarrow> (Resolved (), fallback p (st\<lparr>inflight := remove1 p (inflight st)\<rparr>))
      | Resolved url \<Rightarrow>
          (case node_at (doc st) p of
             None \<Rightarrow> (Resolved (), st\<lparr>inflight := remove1 p (inflight st)\<rparr>)
           | Some n \<Rightarrow>
               if url \<noteq> []
               then (Resolved (), install p url (el n) (st\<lparr>inflight := remove1 p (inflight st)\<rparr>))
               else (Resolved (), fallback p (st\<lparr>inflight := remove1 p (inflight st)\<rparr>))))"

text \<open>One whole run of \<open>process\<close> with nothing else happening in between.\<close>

definition process :: "env \<Rightarrow> path \<Rightarrow> state \<Rightarrow> unit promise \<times> state" where
  "process env p st =
     (case node_at (doc st) p of
        None \<Rightarrow> (Resolved (), st)
      | Some n \<Rightarrow>
          if skips (el n) then (Resolved (), st)
          else process_settle (bakeWatermark env (el n)) p (process_start p st))"

subsection \<open>Discovery, the two observers and the cleanup\<close>

text \<open>
  The six scope selectors of lines 15 to 22: an \<open>img\<close> below a hero, gallery, lightbox or
  dialog container, or an \<open>img\<close> with \<open>data-wm="1"\<close>.
\<close>

definition scope_container :: "elem \<Rightarrow> bool" where
  "scope_container e =
     (map_of (attrs e) ''data-role'' = Some ''property-hero''
      \<or> ''property-hero'' \<in> set (classList e)
      \<or> ''property-gallery'' \<in> set (classList e)
      \<or> ''lightbox'' \<in> set (classList e)
      \<or> map_of (attrs e) ''role'' = Some ''dialog'')"

definition container_at :: "node \<Rightarrow> path \<Rightarrow> bool" where
  "container_at d q = (case node_at d q of None \<Rightarrow> False | Some a \<Rightarrow> scope_container (el a))"

definition is_img :: "node \<Rightarrow> path \<Rightarrow> bool" where
  "is_img d p = (case node_at d p of None \<Rightarrow> False | Some n \<Rightarrow> tag (el n) = ''img'')"

definition in_scope :: "node \<Rightarrow> path \<Rightarrow> bool" where
  "in_scope d p =
     (case node_at d p of
        None \<Rightarrow> False
      | Some n \<Rightarrow>
          tag (el n) = ''img''
          \<and> (list_ex (container_at d) (butlast (prefixes p))
             \<or> map_of (attrs (el n)) ''data-wm'' = Some ''1''))"

text \<open>All elements of a tree, in document order.\<close>

fun paths_of :: "node \<Rightarrow> path list" and paths_list :: "nat \<Rightarrow> node list \<Rightarrow> path list" where
  "paths_of (Node e ks) = [] # paths_list 0 ks"
| "paths_list i [] = []"
| "paths_list i (k # ks) = map ((#) i) (paths_of k) @ paths_list (Suc i) ks"

text \<open>
  The test every discovery path applies to an image:
  \<open>if (!alreadyProcessed(img) && !exclude(img)) io.observe(img)\<close>.
\<close>

definition discover :: "path \<Rightarrow> state \<Rightarrow> state" where
  "discover p st =
     (case node_at (doc st) p of
        None \<Rightarrow> st
      | Some n \<Rightarrow>
          if \<not> alreadyProcessed (el n) \<and> \<not> exclude (el n) then io_observe p st else st)"

definition observeExisting :: "state \<Rightarrow> state" where
  "observeExisting st = fold discover (filter (in_scope (doc st)) (paths_of (doc st))) st"

text \<open>
  The callback of the intersection observer, lines 257 to 263, up to the point where
  every \<open>process\<close> it started waits for its bake. An entry is \<open>(isIntersecting, target)\<close>.
\<close>

definition io_entry :: "bool \<times> path \<Rightarrow> state \<Rightarrow> state" where
  "io_entry e st =
     (if fst e \<and> is_img (doc st) (snd e)
      then io_unobserve (snd e) (process_start (snd e) st)
      else st)"

definition io_callback :: "(bool \<times> path) list \<Rightarrow> state \<Rightarrow> state" where
  "io_callback entries st = fold io_entry entries st"

text \<open>The callback of the mutation observer, lines 277 to 302.\<close>

definition added_node :: "path \<Rightarrow> state \<Rightarrow> state" where
  "added_node n st =
     (if is_img (doc st) n then discover n st
      else fold discover
             (filter (\<lambda>p. strict_prefix n p \<and> in_scope (doc st) p) (paths_of (doc st))) st)"

definition reset_processed :: "elem \<Rightarrow> elem" where
  "reset_processed img = img\<lparr>dataset := AList.update ''wmProcessed'' [] (dataset img)\<rparr>"

definition mo_record :: "mutation \<Rightarrow> state \<Rightarrow> state" where
  "mo_record m st =
     (if mtype m = ''childList'' then fold added_node (addedNodes m) st
      else if mtype m = ''attributes'' \<and> is_img (doc st) (target m) \<and> attributeName m = ''src''
      then
        let st1 = st\<lparr>doc := update_el (target m) reset_processed (doc st)\<rparr>
        in (case node_at (doc st1) (target m) of
              None \<Rightarrow> st1
            | Some n \<Rightarrow> if \<not> exclude (el n) then io_observe (target m) st1 else st1)
      else st)"

definition mo_callback :: "mutation list \<Rightarrow> state \<Rightarrow> state" where
  "mo_callback mutations st = fold mo_record mutations st"

text \<open>The browser hands the queued records to the callback of a connected observer.\<close>

definition mo_deliver :: "state \<Rightarrow> state" where
  "mo_deliver st =
     (if mo_connected st then mo_callback (mo_queue st) (st\<lparr>mo_queue := []\<rparr>) else st)"

text \<open>
  The body of the effect, lines 304 to 310, on a fresh engine over a tree.
\<close>

definition mount :: "node \<Rightarrow> state" where
  "mount d =
     (observeExisting
        \<lparr>doc = d, observed = [], mo_connected = False, mo_queue = [], inflight = [],
         revoked = [], trace = []\<rparr>)
     \<lparr>mo_connected := True\<rparr>"

text \<open>
  The cleanup, lines 312 to 322: both observers are disconnected (a disconnected mutation
  observer drops its queued records) and every element with \<open>data-wm-overlay='1'\<close> is
  removed from the tree. It cancels no bake in flight.
\<close>

fun remove_overlays :: "node \<Rightarrow> node" where
  "remove_overlays (Node e ks) =
     Node e (map remove_overlays (filter (\<lambda>k. \<not> is_overlay (el k)) ks))"

definition teardown :: "state \<Rightarrow> state" where
  "teardown st =
     st\<lparr>observed := [], mo_connected := False, mo_queue := [],
        doc := remove_overlays (doc st)\<rparr>"

subsection \<open>Concrete elements, trees and environments\<close>

text \<open>
  A loaded 200 by 200 image shown at 150 by 150; a page with a gallery holding the image;
  a page with a hero container holding two images; and an environment in which every
  step of a bake succeeds and the blob gets the given URL.
\<close>

definition sample_img :: elem where
  "sample_img =
     (new_elem ''img'')
       \<lparr>src := ''https://cdn.example/a.jpg'', naturalWidth := 200, naturalHeight := 200,
        width := 150, height := 150, complete := True, rect_width := 150, rect_height := 150\<rparr>"

definition sized_img :: "nat \<Rightarrow> nat \<Rightarrow> elem" where
  "sized_img w h = sample_img\<lparr>naturalWidth := w, naturalHeight := h\<rparr>"

text \<open>An image that has not loaded yet but is laid out at 200 by 200.\<close>

definition unloaded_img :: elem where
  "unloaded_img =
     (new_elem ''img'')\<lparr>src := ''https://cdn.example/b.jpg'', width := 200, height := 200\<rparr>"

text \<open>An image whose load has failed, laid out at 300 by 200 by its attributes.\<close>

definition broken_img :: elem where
  "broken_img =
     (new_elem ''img'')
       \<lparr>src := ''https://cdn.example/gone.jpg'', width := 300, height := 200, complete := True\<rparr>"

text \<open>
  Glyph widths proportional to the font size: 3/8 em for \<open>I\<close>, 5/16 em for the full stop
  and 11/16 em for every other character, so that the watermark text measures 300 pixels
  at 24 pixels font size with 1 pixel letter spacing.
\<close>

definition sample_glyphs :: "int \<Rightarrow> char \<Rightarrow> real" where
  "sample_glyphs f c =
     of_int f * (if c = CHR ''I'' then 3 / 8 else if c = CHR ''.'' then 5 / 16 else 11 / 16)"

text \<open>
  Glyphs half an em wide, and a loaded image of a given intrinsic size shown in a square
  of a given side.
\<close>

definition half_glyphs :: "int \<Rightarrow> char \<Rightarrow> real" where
  "half_glyphs f c = of_int f / 2"

definition shown_img :: "real \<Rightarrow> nat \<Rightarrow> nat \<Rightarrow> elem" where
  "shown_img d w h =
     sample_img\<lparr>naturalWidth := w, naturalHeight := h, rect_width := d, rect_height := d\<rparr>"

definition gallery_of :: "elem \<Rightarrow> node" where
  "gallery_of img =
     Node (new_elem ''body'')
       [Node ((new_elem ''div'')\<lparr>classList := [''property-gallery'']\<rparr>) [Node img []]]"

definition gallery_doc :: node where
  "gallery_doc = gallery_of sample_img"

definition hero_doc :: node where
  "hero_doc =
     Node (new_elem ''body'')
       [Node ((new_elem ''div'')\<lparr>classList := [''property-hero'']\<rparr>)
          [Node sample_img [], Node (sized_img 640 480) []]]"

definition sample_env :: "string \<Rightarrow> env" where
  "sample_env url =
     \<lparr>img_signal = None, off_signal = Some (LoadEvent 200 200), getContext = True,
      measureText = sample_glyphs, toBlob = (\<lambda>c. Callback (Some url)),
      toDataURL = (\<lambda>c. Some ''data:,'')\<rparr>"

definition blocked_env :: env where
  "blocked_env = (sample_env ''blob:1'')\<lparr>off_signal := Some ErrorEvent\<rparr>"

text \<open>
  An image that was baked before (it shows and owns the handle \<open>blob:1\<close>) and has been
  reset to unprocessed.
\<close>

definition rebake_img :: elem where
  "rebake_img =
     sample_img\<lparr>src := ''blob:1'', dataset := [(''wmUrl'', ''blob:1''), (''wmProcessed'', [])]\<rparr>"


section \<open>Properties\<close>

subsection \<open>Eligibility\<close>

lemma exclude_iff:
  "exclude img \<longleftrightarrow>
     map_of (dataset img) ''noWm'' = Some ''true'' \<or> ''no-wm'' \<in> set (classList img)
     \<or> or_else (naturalWidth img) (width img) < 120
     \<or> or_else (naturalHeight img) (height img) < 120"
  by (simp add: exclude_def or_else_def Let_def)

lemma discover_excluded:
  "node_at (doc st) p = Some n \<Longrightarrow> exclude (el n) \<Longrightarrow> discover p st = st"
  by (simp add: discover_def)

lemma process_skipped:
  "node_at (doc st) p = Some n \<Longrightarrow> skips (el n) \<Longrightarrow> process env p st = (Resolved (), st)"
  by (simp add: process_def)

lemma process_start_skipped:
  "node_at (doc st) p = Some n \<Longrightarrow> skips (el n) \<Longrightarrow> process_start p st = st"
  by (simp add: process_start_def)

text \<open>
  Claim C6, as the code has it. The filter does not set an image of zero intrinsic size
  aside as undecided: \<open>naturalWidth || width || 0\<close> puts the \<open>width\<close> and \<open>height\<close>
  properties in place of the intrinsic size. Without an opt-out such an image is excluded
  exactly when its \<open>width\<close> or \<open>height\<close> property is below 120, and discovery does not
  put an excluded image under observation.
\<close>

theorem zero_size_uses_layout_size:
  assumes "map_of (dataset img) ''noWm'' \<noteq> Some ''true''"
    and "''no-wm'' \<notin> set (classList img)"
    and "naturalWidth img = 0" and "naturalHeight img = 0"
  shows "(exclude img \<longleftrightarrow> width img < 120 \<or> height img < 120)
    \<and> (exclude img \<and> node_at (doc st) p = Some (Node img ks) \<longrightarrow> discover p st = st)"
  using assms by (auto simp: exclude_iff or_else_def discover_def)

text \<open>
  The claim as the specification states it fails: a fresh image, of zero intrinsic size,
  zero layout size and no opt-out, is excluded.
\<close>

theorem zero_size_excluded:
  "naturalWidth (new_elem ''img'') = 0 \<and> naturalHeight (new_elem ''img'') = 0
   \<and> map_of (dataset (new_elem ''img'')) ''noWm'' \<noteq> Some ''true''
   \<and> ''no-wm'' \<notin> set (classList (new_elem ''img''))
   \<and> exclude (new_elem ''img'')"
  by (simp add: new_elem_def exclude_def or_else_def)

theorem zero_size_uses_layout_size_witness:
  "map_of (dataset unloaded_img) ''noWm'' \<noteq> Some ''true''
   \<and> ''no-wm'' \<notin> set (classList unloaded_img)
   \<and> naturalWidth unloaded_img = 0 \<and> naturalHeight unloaded_img = 0
   \<and> \<not> exclude unloaded_img
   \<and> exclude (new_elem ''img'')
   \<and> discover [] (mount (Node (new_elem ''img'') [])) = mount (Node (new_elem ''img'') [])"
proof -
  have a: "map_of (dataset unloaded_img) ''noWm'' \<noteq> Some ''true''"
    "''no-wm'' \<notin> set (classList unloaded_img)"
    "naturalWidth unloaded_img = 0" "naturalHeight unloaded_img = 0"
    "\<not> (width unloaded_img < 120 \<or> height unloaded_img < 120)"
    by (simp_all add: unloaded_img_def new_elem_def)
  have b: "map_of (dataset (new_elem ''img'')) ''noWm'' \<noteq> Some ''true''"
    "''no-wm'' \<notin> set (classList (new_elem ''img''))"
    "naturalWidth (new_elem ''img'') = 0" "naturalHeight (new_elem ''img'') = 0"
    "width (new_elem ''img'') < 120"
    by (simp_all add: new_elem_def)
  have c: "node_at (doc (mount (Node (new_elem ''img'') []))) [] = Some (Node (new_elem ''img'') [])"
    by code_simp
  from zero_size_uses_layout_size [OF a(1-4)] a(5) have "\<not> exclude unloaded_img" by blast
  moreover from zero_size_uses_layout_size [OF b(1-4), of "mount (Node (new_elem ''img'') [])" "[]" "[]"] b(5) c
  have "exclude (new_elem ''img'')"
    and "discover [] (mount (Node (new_elem ''img'') [])) = mount (Node (new_elem ''img'') [])"
    by blast+
  ultimately show ?thesis using a by simp
qed

text \<open>
  Claim C7, as the code has it. For an image without opt-out whose intrinsic width and
  height are both known (positive), the filter excludes it exactly when one of them is
  below 120; an excluded image is skipped by \<open>process\<close> and by discovery, which leave the
  state as it is. A 100 by 100 image is excluded, a 120 by 120 image is not.
\<close>

theorem exclude_by_natural_size:
  assumes "map_of (dataset img) ''noWm'' \<noteq> Some ''true''"
    and "''no-wm'' \<notin> set (classList img)"
    and "0 < naturalWidth img" and "0 < naturalHeight img"
  shows "(exclude img \<longleftrightarrow> naturalWidth img < 120 \<or> naturalHeight img < 120)
    \<and> (exclude img \<and> node_at (doc st) p = Some (Node img ks) \<longrightarrow>
          process env p st = (Resolved (), st) \<and> process_start p st = st \<and> discover p st = st)"
  using assms
  by (auto simp: exclude_iff or_else_def discover_def process_def process_start_def skips_def)

text \<open>
  The claim as the specification states it fails where the intrinsic size is not known:
  the image that has not loaded but is laid out at 200 by 200 has intrinsic width 0,
  which is below 120, and is not excluded.
\<close>

theorem unloaded_sized_not_excluded:
  "map_of (dataset unloaded_img) ''noWm'' \<noteq> Some ''true''
   \<and> ''no-wm'' \<notin> set (classList unloaded_img)
   \<and> naturalWidth unloaded_img < 120
   \<and> \<not> exclude unloaded_img"
  by (simp add: unloaded_img_def new_elem_def exclude_def or_else_def)

theorem exclude_by_natural_size_witness:
  "exclude (sized_img 100 100) \<and> \<not> exclude (sized_img 120 120)
   \<and> process (sample_env ''blob:1'') [0, 0] (mount (gallery_of (sized_img 100 100)))
       = (Resolved (), mount (gallery_of (sized_img 100 100)))
   \<and> observed (mount (gallery_of (sized_img 100 100))) = []
   \<and> observed (mount (gallery_of (sized_img 120 120))) = [[0, 0]]"
proof -
  have a: "map_of (dataset (sized_img w h)) ''noWm'' \<noteq> Some ''true''"
    "''no-wm'' \<notin> set (classList (sized_img w h))" for w h
    by (simp_all add: sized_img_def sample_img_def new_elem_def)
  have n: "naturalWidth (sized_img w h) = w" "naturalHeight (sized_img w h) = h" for w h
    by (simp_all add: sized_img_def)
  have d: "node_at (doc (mount (gallery_of (sized_img 100 100)))) [0, 0]
             = Some (Node (sized_img 100 100) [])"
    by code_simp
  have o: "observed (mount (gallery_of (sized_img 100 100))) = []"
    "observed (mount (gallery_of (sized_img 120 120))) = [[0, 0]]"
    by code_simp+
  have s: "exclude (sized_img 100 100)"
    using exclude_by_natural_size [OF a, of 100 100] by (simp add: n)
  have "\<not> exclude (sized_img 120 120)"
    using exclude_by_natural_size [OF a, of 120 120] by (simp add: n)
  moreover have "process (sample_env ''blob:1'') [0, 0] (mount (gallery_of (sized_img 100 100)))
       = (Resolved (), mount (gallery_of (sized_img 100 100)))"
    using exclude_by_natural_size [OF a, of 100 100 "mount (gallery_of (sized_img 100 100))"
        "[0, 0]" "[]" "sample_env ''blob:1''"] s d
    by (simp add: n)
  ultimately show ?thesis using s o by simp
qed


subsection \<open>Binary64 rounding\<close>

lemma two_powi_pos: "0 < (2::real) powi e"
  by (simp add: zero_less_power_int)

lemma two_powi_add: "(2::real) powi (a + b) = 2 powi a * 2 powi b"
  by (simp add: power_int_add)

lemma two_powi_mono: "a \<le> b \<Longrightarrow> (2::real) powi a \<le> 2 powi b"
  by (simp add: power_int_increasing)

lemma two_powi_nat: "0 \<le> e \<Longrightarrow> (2::real) powi e = 2 ^ nat e"
  by (simp add: power_int_nonneg_exp)

lemma two_powi_neg: "(2::real) powi (- e) = 1 / 2 powi e"
  by (simp add: power_int_minus_divide)

lemma expo_bounds:
  assumes "0 < x"
  shows "2 powi (expo x) \<le> x" and "x < 2 powi (expo x + 1)"
proof -
  have "2 powi (expo x) \<le> x \<and> x < 2 powi (expo x + 1)"
  proof (cases "1 \<le> x")
    case True
    define n where "n = \<lfloor>x\<rfloor>"
    define k where "k = bitlen n - 1"
    have n: "0 < n" using True by (simp add: n_def)
    from bitlen_bounds [OF n] have b: "2 ^ nat k \<le> n" "n < 2 ^ nat (bitlen n)"
      by (simp_all add: k_def)
    have k0: "0 \<le> k" using n by (simp add: k_def bitlen_alt_def)
    have e: "expo x = k" using True by (simp add: expo_def n_def k_def)
    have "real_of_int (2 ^ nat k) \<le> real_of_int n" using b(1) by (simp only: of_int_le_iff)
    also have "\<dots> \<le> x" by (simp add: n_def)
    finally have lo: "2 powi k \<le> x" using k0 by (simp add: two_powi_nat)
    have "nat (bitlen n) = nat (k + 1)" by (simp add: k_def)
    with b(2) have "n + 1 \<le> 2 ^ nat (k + 1)" by simp
    then have "real_of_int (n + 1) \<le> real_of_int (2 ^ nat (k + 1))"
      by (simp only: of_int_le_iff)
    moreover have "x < real_of_int (n + 1)" by (simp add: n_def)
    ultimately have "x < 2 powi (k + 1)" using k0 by (simp add: two_powi_nat)
    with lo e show ?thesis by simp
  next
    case False
    define y where "y = 1 / x"
    define n where "n = \<lfloor>y\<rfloor>"
    define k where "k = bitlen n - 1"
    have y1: "1 < y" using False assms by (simp add: y_def)
    have n: "0 < n" using y1 by (simp add: n_def)
    from bitlen_bounds [OF n] have b: "2 ^ nat k \<le> n" "n < 2 ^ nat (bitlen n)"
      by (simp_all add: k_def)
    have k0: "0 \<le> k" using n by (simp add: k_def bitlen_alt_def)
    have "real_of_int (2 ^ nat k) \<le> real_of_int n" using b(1) by (simp only: of_int_le_iff)
    also have "\<dots> \<le> y" by (simp add: n_def)
    finally have ylo: "2 ^ nat k \<le> y" by simp
    have "nat (bitlen n) = nat (k + 1)" by (simp add: k_def)
    with b(2) have "n + 1 \<le> 2 ^ nat (k + 1)" by simp
    then have "real_of_int (n + 1) \<le> real_of_int (2 ^ nat (k + 1))"
      by (simp only: of_int_le_iff)
    moreover have "y < real_of_int (n + 1)" by (simp add: n_def)
    ultimately have yhi: "y < 2 ^ nat (k + 1)" by simp
    have p: "(2::real) powi (- k) = 1 / 2 ^ nat k" "(2::real) powi (- k - 1) = 1 / 2 ^ nat (k + 1)"
      using k0 two_powi_neg [of k] two_powi_neg [of "k + 1"] by (simp_all add: two_powi_nat)
    have xhi: "x \<le> 2 powi (- k)"
      using ylo assms by (simp add: y_def p field_simps)
    have xlo: "2 powi (- k - 1) < x"
      using yhi assms by (simp add: y_def p field_simps)
    show ?thesis
    proof (cases "x * 2 ^ nat k = 1")
      case True
      then have x: "x = 2 powi (- k)" by (simp add: p field_simps)
      have e: "expo x = - k" using False True by (simp add: expo_def Let_def y_def n_def k_def)
      have "(2::real) powi (- k) < 2 powi (- k + 1)"
        by (intro power_int_strict_increasing) simp_all
      with x e show ?thesis by simp
    next
      case ne: False
      have e: "expo x = - k - 1" using False ne by (simp add: expo_def Let_def y_def n_def k_def)
      have "x \<noteq> 2 powi (- k)" using ne by (simp add: p field_simps)
      with xhi have "x < 2 powi (- k)" by simp
      with xlo e show ?thesis by simp
    qed
  qed
  then show "2 powi (expo x) \<le> x" and "x < 2 powi (expo x + 1)" by blast+
qed

lemma round_even_err: "\<bar>of_int (round_even m) - m\<bar> \<le> 1 / 2"
  by (simp add: round_even_def Let_def; linarith)

lemma round_even_le: "m \<le> of_int n \<Longrightarrow> round_even m \<le> n"
  by (simp add: round_even_def Let_def; linarith)

lemma round_even_ge: "of_int n \<le> m \<Longrightarrow> n \<le> round_even m"
  by (simp add: round_even_def Let_def; linarith)

lemma round_even_less_half: "m < of_int n + 1 / 2 \<Longrightarrow> round_even m \<le> n"
  by (simp add: round_even_def Let_def; linarith)


lemma ulp_pos: "0 < ulp x"
  by (simp add: ulp_def two_powi_pos)

lemma rnd64_pos: "0 < x \<Longrightarrow> rnd64 x = of_int (round_even (x / ulp x)) * ulp x"
  by (simp add: rnd64_def)

lemma rnd64_nonneg: "0 \<le> x \<Longrightarrow> 0 \<le> rnd64 x"
proof (cases "x = 0")
  case True
  then show ?thesis by (simp add: rnd64_def)
next
  case False
  assume "0 \<le> x"
  with False have x: "0 < x" by simp
  have "real_of_int 0 \<le> x / ulp x" using x ulp_pos [of x] by simp
  then have "0 \<le> round_even (x / ulp x)" by (rule round_even_ge)
  then show ?thesis using ulp_pos [of x] by (simp add: rnd64_pos [OF x])
qed

lemma rnd64_err:
  assumes "0 < x"
  shows "\<bar>rnd64 x - x\<bar> \<le> ulp x / 2"
proof -
  let ?u = "ulp x"
  let ?K = "real_of_int (round_even (x / ?u))"
  have u: "0 < ?u" by (rule ulp_pos)
  have "\<bar>?K - x / ?u\<bar> \<le> 1 / 2" by (rule round_even_err)
  then have "\<bar>?K - x / ?u\<bar> * ?u \<le> 1 / 2 * ?u"
    using u by (intro mult_right_mono) simp_all
  moreover have "(?K - x / ?u) * ?u = ?K * ?u - x"
    using u by (simp add: field_simps)
  then have "\<bar>?K - x / ?u\<bar> * ?u = \<bar>?K * ?u - x\<bar>"
    using u abs_mult [of "?K - x / ?u" ?u] by simp
  ultimately show ?thesis by (simp add: rnd64_pos [OF assms])
qed

lemma ulp_le:
  assumes "0 < x"
  shows "ulp x \<le> max (x * 2 powi (- 52)) (2 powi (- 1074))"
proof (cases "- 1074 \<le> expo x - 52")
  case True
  have "(2::real) powi (expo x - 52) = 2 powi (expo x) * 2 powi (- 52)"
    using two_powi_add [of "expo x" "- 52"] by simp
  also have "\<dots> \<le> x * 2 powi (- 52)"
    using expo_bounds(1) [OF assms] by (intro mult_right_mono) simp_all
  finally show ?thesis using True by (simp add: ulp_def max_def)
next
  case False
  then show ?thesis by (simp add: ulp_def max_def)
qed

lemma rnd64_upper:
  assumes "0 < x"
  shows "rnd64 x \<le> 2 powi (max (expo x - 52) (- 1074) + 53)"
proof -
  let ?j = "max (expo x - 52) (- 1074)"
  have u: "ulp x = 2 powi ?j" by (simp add: ulp_def)
  have "x < 2 powi (expo x + 1)" by (rule expo_bounds(2) [OF assms])
  also have "\<dots> \<le> 2 powi (?j + 53)" by (intro two_powi_mono) simp
  also have "\<dots> = 2 powi 53 * 2 powi ?j" using two_powi_add [of 53 ?j] by (simp add: add.commute)
  finally have "x / ulp x < 2 powi 53"
    using two_powi_pos [of ?j] by (simp add: u field_simps)
  then have "x / ulp x \<le> real_of_int (2 ^ 53)" by simp
  then have "round_even (x / ulp x) \<le> 2 ^ 53" by (rule round_even_le)
  then have "real_of_int (round_even (x / ulp x)) \<le> real_of_int (2 ^ 53)"
    by (simp only: of_int_le_iff)
  then have "real_of_int (round_even (x / ulp x)) * ulp x \<le> real_of_int (2 ^ 53) * ulp x"
    using ulp_pos [of x] by (intro mult_right_mono) simp_all
  also have "real_of_int (2 ^ 53) * ulp x = 2 powi (?j + 53)"
    using two_powi_add [of 53 ?j] by (simp add: u add.commute)
  finally show ?thesis by (simp add: rnd64_pos [OF assms])
qed

lemma rnd64_on_grid: "0 \<le> x \<Longrightarrow> \<exists>j. on_grid (rnd64 x) j"
proof (cases "x = 0")
  case True
  have "on_grid 0 0" by (simp add: on_grid_def)
  with True show ?thesis by (auto simp: rnd64_def)
next
  case False
  assume "0 \<le> x"
  with False have x: "0 < x" by simp
  let ?j = "max (expo x - 52) (- 1074)"
  have "rnd64 x = of_int (round_even (x / ulp x)) * 2 powi ?j"
    by (simp add: rnd64_pos [OF x] ulp_def)
  moreover have "\<bar>rnd64 x\<bar> \<le> 2 powi (?j + 53)"
    using rnd64_upper [OF x] rnd64_nonneg [of x] x by simp
  ultimately have "on_grid (rnd64 x) ?j" unfolding on_grid_def by blast
  then show ?thesis ..
qed

lemma grid_step:
  assumes "i \<le> j" and "real_of_int ka * 2 powi i < real_of_int kb * 2 powi j"
  shows "2 powi i \<le> real_of_int kb * 2 powi j - real_of_int ka * 2 powi i"
proof -
  define n where "n = nat (j - i)"
  have "(2::real) powi j = 2 powi (j - i) * 2 powi i"
    using two_powi_add [of "j - i" i] by simp
  also have "(2::real) powi (j - i) = 2 ^ n" using assms(1) by (simp add: n_def two_powi_nat)
  finally have pj: "(2::real) powi j = real_of_int (2 ^ n) * 2 powi i" by simp
  have d: "real_of_int kb * 2 powi j - real_of_int ka * 2 powi i
             = real_of_int (kb * 2 ^ n - ka) * 2 powi i"
    by (simp add: pj algebra_simps)
  with assms(2) have "0 < real_of_int (kb * 2 ^ n - ka) * 2 powi i" by simp
  then have "0 < real_of_int (kb * 2 ^ n - ka)"
    using two_powi_pos [of i] by (simp add: zero_less_mult_iff)
  then have "1 \<le> kb * 2 ^ n - ka" by linarith
  then have "1 \<le> real_of_int (kb * 2 ^ n - ka)" by linarith
  then have "1 * 2 powi i \<le> real_of_int (kb * 2 ^ n - ka) * 2 powi i"
    using two_powi_pos [of i] by (intro mult_right_mono) simp_all
  then show ?thesis by (simp add: d)
qed

lemma grid_step':
  assumes "j \<le> i" and "real_of_int ka * 2 powi i < real_of_int kb * 2 powi j"
  shows "2 powi j \<le> real_of_int kb * 2 powi j - real_of_int ka * 2 powi i"
proof -
  define n where "n = nat (i - j)"
  have "(2::real) powi i = 2 powi (i - j) * 2 powi j"
    using two_powi_add [of "i - j" j] by simp
  also have "(2::real) powi (i - j) = 2 ^ n" using assms(1) by (simp add: n_def two_powi_nat)
  finally have pj: "(2::real) powi i = real_of_int (2 ^ n) * 2 powi j" by simp
  have d: "real_of_int kb * 2 powi j - real_of_int ka * 2 powi i
             = real_of_int (kb - ka * 2 ^ n) * 2 powi j"
    by (simp add: pj algebra_simps)
  with assms(2) have "0 < real_of_int (kb - ka * 2 ^ n) * 2 powi j" by simp
  then have "0 < real_of_int (kb - ka * 2 ^ n)"
    using two_powi_pos [of j] by (simp add: zero_less_mult_iff)
  then have "1 \<le> kb - ka * 2 ^ n" by linarith
  then have "1 \<le> real_of_int (kb - ka * 2 ^ n)" by linarith
  then have "1 * 2 powi j \<le> real_of_int (kb - ka * 2 ^ n) * 2 powi j"
    using two_powi_pos [of j] by (intro mult_right_mono) simp_all
  then show ?thesis by (simp add: d)
qed

lemma gap:
  assumes a: "on_grid a ja" and b: "on_grid b jb" and "0 \<le> a" and "a < b"
  shows "b * 2 powi (- 54) < b - a"
proof -
  from a obtain ka where ka: "a = real_of_int ka * 2 powi ja" and ua: "a \<le> 2 powi (ja + 53)"
    using \<open>0 \<le> a\<close> by (auto simp: on_grid_def)
  from b obtain kb where kb: "b = real_of_int kb * 2 powi jb" and ub: "b \<le> 2 powi (jb + 53)"
    using \<open>0 \<le> a\<close> \<open>a < b\<close> by (auto simp: on_grid_def)
  have bpos: "0 < b" using assms by simp
  have c: "(2::real) powi (- 54) = 1 / 2 ^ 54" by simp
  show ?thesis
  proof (cases "ja \<le> jb")
    case True
    from grid_step [OF True, of ka kb] \<open>a < b\<close> have st: "2 powi ja \<le> b - a"
      by (simp add: ka kb)
    show ?thesis
    proof (cases "b < 2 * a")
      case True
      have "b < 2 * 2 powi (ja + 53)" using True ua by simp
      also have "\<dots> = 2 powi ja * 2 ^ 54" using two_powi_add [of ja 53] by simp
      finally have "b * 2 powi (- 54) < 2 powi ja" by (simp add: c field_simps)
      with st show ?thesis by simp
    next
      case False
      then have "b / 2 \<le> b - a" by simp
      moreover have "b * 2 powi (- 54) < b / 2" using bpos by (simp add: c)
      ultimately show ?thesis by simp
    qed
  next
    case False
    then have le: "jb \<le> ja" by simp
    from grid_step' [OF le, of ka kb] \<open>a < b\<close> have st: "2 powi jb \<le> b - a"
      by (simp add: ka kb)
    have "b \<le> 2 powi jb * 2 ^ 53" using ub two_powi_add [of jb 53] by simp
    then have "b * 2 powi (- 54) \<le> 2 powi jb / 2" by (simp add: c field_simps)
    also have "\<dots> < 2 powi jb" using two_powi_pos [of jb] by simp
    finally show ?thesis using st by simp
  qed
qed


lemma expo_neg:
  assumes "0 < q" and "q < 1"
  shows "expo q \<le> - 1"
proof (rule ccontr)
  assume "\<not> expo q \<le> - 1"
  then have "0 \<le> expo q" by simp
  then have "(2::real) powi 0 \<le> 2 powi (expo q)" by (rule two_powi_mono)
  with expo_bounds(1) [OF assms(1)] assms(2) show False by simp
qed

lemma fdiv_below_one:
  assumes a: "on_grid a ja" and b: "on_grid b jb" and "0 \<le> a" and "a < b"
  shows "fdiv a b \<le> 1 - 2 powi (- 53)"
proof (cases "a = 0")
  case True
  then show ?thesis by (simp add: fdiv_def rnd64_def)
next
  case False
  define q where "q = a / b"
  have bpos: "0 < b" using assms by simp
  have q0: "0 < q" using False \<open>0 \<le> a\<close> bpos by (simp add: q_def)
  from gap [OF assms] have "a < b - b * 2 powi (- 54)" by simp
  then have "a / b < (b - b * 2 powi (- 54)) / b"
    using bpos by (rule divide_strict_right_mono)
  then have q1: "q < 1 - 2 powi (- 54)" using bpos by (simp add: q_def field_simps)
  then have "q < 1" by simp
  from expo_neg [OF q0 this] have e: "expo q \<le> - 1" .
  show ?thesis
  proof (cases "expo q = - 1")
    case True
    then have u: "ulp q = 2 powi (- 53)" by (simp add: ulp_def)
    have "q / ulp q = q * 2 ^ 53" by (simp add: u)
    also have "\<dots> < (1 - 2 powi (- 54)) * 2 ^ 53" using q1 by simp
    also have "\<dots> = real_of_int (2 ^ 53 - 1) + 1 / 2" by simp
    finally have "round_even (q / ulp q) \<le> 2 ^ 53 - 1" by (rule round_even_less_half)
    then have "real_of_int (round_even (q / ulp q)) \<le> real_of_int (2 ^ 53 - 1)"
      by (simp only: of_int_le_iff)
    then have "real_of_int (round_even (q / ulp q)) * ulp q \<le> real_of_int (2 ^ 53 - 1) * ulp q"
      using ulp_pos [of q] by (intro mult_right_mono) simp_all
    also have "real_of_int (2 ^ 53 - 1) * ulp q = 1 - 2 powi (- 53)" by (simp add: u)
    finally show ?thesis by (simp add: fdiv_def q_def [symmetric] rnd64_pos [OF q0])
  next
    case False
    with e have "expo q \<le> - 2" by simp
    then have "max (expo q - 52) (- 1074) + 53 \<le> - 1" by simp
    then have "(2::real) powi (max (expo q - 52) (- 1074) + 53) \<le> 2 powi (- 1)"
      by (rule two_powi_mono)
    with rnd64_upper [OF q0] have "rnd64 q \<le> 1 / 2" by simp
    then show ?thesis by (simp add: fdiv_def q_def [symmetric])
  qed
qed

lemma fmul_below:
  assumes "1 \<le> f" and "0 \<le> s" and "s \<le> 1 - 2 powi (- 53)"
  shows "fmul f s < f"
proof (cases "f * s = 0")
  case True
  then show ?thesis using assms(1) by (simp add: fmul_def rnd64_def)
next
  case False
  define y where "y = f * s"
  have y0: "0 < y" using False assms by (simp add: y_def zero_less_mult_iff less_le)
  have "f * s \<le> f * (1 - 2 powi (- 53))" using assms by (intro mult_left_mono) simp_all
  then have yhi: "y \<le> f - f * 2 powi (- 53)" by (simp add: y_def algebra_simps)
  from rnd64_err [OF y0] have r: "rnd64 y \<le> y + ulp y / 2" by linarith
  from ulp_le [OF y0] consider "ulp y \<le> y * 2 powi (- 52)" | "ulp y \<le> 2 powi (- 1074)"
    by (auto simp: max_def split: if_splits)
  then have "rnd64 y < f"
  proof cases
    case 1
    then have "rnd64 y \<le> y * (1 + 2 powi (- 53))" using r by (simp add: algebra_simps)
    also have "\<dots> \<le> (f - f * 2 powi (- 53)) * (1 + 2 powi (- 53))"
      using yhi by (intro mult_right_mono) simp_all
    also have "\<dots> = f - f * (2 powi (- 53) * 2 powi (- 53))" by (simp add: algebra_simps)
    also have "\<dots> < f" using assms(1) by simp
    finally show ?thesis .
  next
    case 2
    then have "rnd64 y \<le> y + 2 powi (- 1074) / 2" using r by simp
    also have "\<dots> \<le> f - f * 2 powi (- 53) + 2 powi (- 1074) / 2" using yhi by simp
    also have "\<dots> \<le> f - 1 * 2 powi (- 53) + 2 powi (- 1074) / 2"
      using assms(1) by (simp add: mult_right_mono)
    also have "\<dots> < f"
    proof -
      have "(2::real) powi (- 1074) < 2 powi (- 53)"
        by (intro power_int_strict_increasing) simp_all
      moreover have "0 < (2::real) powi (- 1074)" by (rule two_powi_pos)
      ultimately show ?thesis by simp
    qed
    finally show ?thesis .
  qed
  then show ?thesis by (simp add: fmul_def y_def)
qed

lemma round_even_of_int: "round_even (of_int n) = n"
  by (simp add: round_even_def)

text \<open>A positive value with at most 53 bits on a grid the format has is not changed.\<close>

lemma rnd64_exact:
  assumes "0 < x" and "x = real_of_int k * 2 powi j" and "x < 2 powi (j + 53)"
    and "- 1074 \<le> j"
  shows "rnd64 x = x"
proof -
  define i where "i = max (expo x - 52) (- 1074)"
  have "expo x < j + 53"
  proof (rule ccontr)
    assume "\<not> expo x < j + 53"
    then have "(2::real) powi (j + 53) \<le> 2 powi (expo x)" by (intro two_powi_mono) simp
    with expo_bounds(1) [OF assms(1)] assms(3) show False by simp
  qed
  with assms(4) have ij: "i \<le> j" by (simp add: i_def)
  have u: "ulp x = 2 powi i" by (simp add: ulp_def i_def)
  have "(2::real) powi j = 2 powi (j - i) * 2 powi i"
    using two_powi_add [of "j - i" i] by simp
  also have "(2::real) powi (j - i) = 2 ^ nat (j - i)" using ij by (simp add: two_powi_nat)
  finally have pj: "(2::real) powi j = real_of_int (2 ^ nat (j - i)) * 2 powi i" by simp
  have "x / ulp x = x / 2 powi i" by (simp only: u)
  also have "\<dots> = real_of_int k * 2 powi j / 2 powi i" using assms(2) by simp
  also have "\<dots> = real_of_int (k * 2 ^ nat (j - i))"
    using two_powi_pos [of i] by (simp add: pj)
  finally have "x / ulp x = real_of_int (k * 2 ^ nat (j - i))" .
  then have "round_even (x / ulp x) = k * 2 ^ nat (j - i)"
    by (simp only: round_even_of_int)
  then have "rnd64 x = real_of_int (k * 2 ^ nat (j - i)) * 2 powi i"
    by (simp add: rnd64_pos [OF assms(1)] u)
  also have "\<dots> = x" by (simp add: assms(2) pj)
  finally show ?thesis .
qed

lemma rnd64_exact16:
  assumes "0 \<le> x" and "x * 16 \<in> \<int>" and "x < 2 ^ 49"
  shows "rnd64 x = x"
proof (cases "x = 0")
  case True
  then show ?thesis by (simp add: rnd64_def)
next
  case False
  with assms(1) have x: "0 < x" by simp
  from assms(2) obtain k :: int where k: "x * 16 = real_of_int k" by (rule Ints_cases)
  have 1: "x = real_of_int k * 2 powi (- 4)" using k by simp
  have 2: "x < 2 powi (- 4 + 53)" using assms(3) by simp
  show ?thesis by (rule rnd64_exact [OF x 1 2]) simp
qed

subsection \<open>Layout\<close>

lemma baseFontPx_ge: "24 \<le> baseFontPx img w h"
  by (simp add: baseFontPx_def Let_def)

lemma rnd64_nonpos: "x \<le> 0 \<Longrightarrow> rnd64 x \<le> 0"
proof (cases "x = 0")
  case True
  then show ?thesis by (simp add: rnd64_def)
next
  case False
  assume "x \<le> 0"
  then have "x / ulp \<bar>x\<bar> \<le> real_of_int 0" using ulp_pos [of "\<bar>x\<bar>"] by (simp add: field_simps)
  then have "round_even (x / ulp \<bar>x\<bar>) \<le> 0" by (rule round_even_le)
  then have "real_of_int (round_even (x / ulp \<bar>x\<bar>)) * ulp \<bar>x\<bar> \<le> 0"
    using ulp_pos [of "\<bar>x\<bar>"] by (simp add: mult_le_0_iff)
  with False show ?thesis by (simp add: rnd64_def)
qed

lemma pos_rnd64_on_grid:
  assumes "0 < rnd64 x"
  shows "\<exists>j. on_grid (rnd64 x) j"
proof -
  have "0 \<le> x" using assms rnd64_nonpos [of x] by linarith
  then show ?thesis by (rule rnd64_on_grid)
qed

text \<open>The measured width is the start value or the result of a rounded addition.\<close>

lemma measure_loop_form:
  "measure_loop g ls cs w = w \<or> (\<exists>x. measure_loop g ls cs w = rnd64 x)"
proof (induction g ls cs w rule: measure_loop.induct)
  case (1 glyph letterSpacing w)
  show ?case by simp
next
  case (2 glyph letterSpacing c w)
  show ?case by (auto simp: fadd_def)
next
  case (3 glyph letterSpacing c d cs w)
  then show ?case by (auto simp: fadd_def)
qed

lemma measured_form:
  "measureTextWithSpacing g t ls = 0 \<or> (\<exists>x. measureTextWithSpacing g t ls = rnd64 x)"
  using measure_loop_form [of g ls "toUpperCase t" 0] by (simp add: measureTextWithSpacing_def)

text \<open>
  The font size after the shrink pass is below the font size before it, in binary64 as
  in exact arithmetic: the quotient of two different binary64 values rounds to a value
  below 1, and the product of a number with such a value rounds to less than the number.
\<close>

lemma shrink_below:
  assumes "measureTextWithSpacing g t ls > maxWidth w" and "1 \<le> f"
  shows "\<lfloor>fmul (of_int f) (fdiv (maxWidth w) (measureTextWithSpacing g t ls))\<rfloor> < f"
proof -
  let ?a = "maxWidth w" and ?b = "measureTextWithSpacing g t ls"
  have c: "0 \<le> rnd64 (7 / 10)" by (rule rnd64_nonneg) simp
  then have x: "0 \<le> real w * rnd64 (7 / 10)" by simp
  have a0: "0 \<le> ?a" unfolding maxWidth_def fmul_def using x by (rule rnd64_nonneg)
  obtain ja where ja: "on_grid ?a ja"
    unfolding maxWidth_def fmul_def using rnd64_on_grid [OF x] by blast
  have b0: "0 < ?b" using a0 assms(1) by linarith
  with measured_form [of g t ls] obtain y where y: "?b = rnd64 y" by auto
  with b0 pos_rnd64_on_grid [of y] obtain jb where jb: "on_grid ?b jb" by auto
  have s1: "fdiv ?a ?b \<le> 1 - 2 powi (- 53)"
    using ja jb a0 assms(1) by (rule fdiv_below_one)
  have s0: "0 \<le> fdiv ?a ?b"
    unfolding fdiv_def using a0 b0 by (intro rnd64_nonneg) simp
  have "fmul (real_of_int f) (fdiv ?a ?b) < real_of_int f"
    using assms(2) s0 s1 by (intro fmul_below) simp_all
  then show ?thesis by (simp add: floor_less_iff)
qed

lemma upper_TEXT: "toUpperCase TEXT = ''ASHISHPROPERTIES.IN''"
  by code_simp

lemma upper_upper_TEXT: "toUpperCase ''ASHISHPROPERTIES.IN'' = ''ASHISHPROPERTIES.IN''"
  by code_simp

text \<open>Products and quotients of the layout at some sizes, rounded.\<close>

lemma font_values:
  "js_round (fmul 150 (rnd64 (4 / 25))) = 24"
  "js_round (fmul 170 (rnd64 (4 / 25))) = 27"
  "js_round (fmul 295 (rnd64 (4 / 25))) = 47"
  by (code_simp+)

lemma spacing_values:
  "js_round (fmul 18 (rnd64 (3 / 50))) = 1"
  "js_round (fmul 20 (rnd64 (3 / 50))) = 1"
  "js_round (fmul 24 (rnd64 (3 / 50))) = 1"
  "js_round (fmul 27 (rnd64 (3 / 50))) = 2"
  "js_round (fmul 46 (rnd64 (3 / 50))) = 3"
  "js_round (fmul 47 (rnd64 (3 / 50))) = 3"
  by (code_simp+)

lemma width_values:
  "fmul 200 (rnd64 (7 / 10)) = 140"
  "fmul 325 (rnd64 (7 / 10)) = 8004444650209279 / 35184372088832"
  "fmul 715 (rnd64 (7 / 10)) = 8804889115230207 / 17592186044416"
  "fmul 716 (rnd64 (7 / 10)) = 8817203645461299 / 17592186044416"
  by (code_simp+)

lemma floor_values:
  "\<lfloor>fmul 24 (fdiv 140 300)\<rfloor> = 11"
  "\<lfloor>fmul 27 (fdiv (8004444650209279 / 35184372088832) (585 / 2))\<rfloor> = 20"
  "\<lfloor>fmul 47 (fdiv (8804889115230207 / 17592186044416) (1001 / 2))\<rfloor> = 46"
  "js_round (fmul 600 (rnd64 (7 / 200))) = 21"
  by (code_simp+)

lemma measure_values:
  "measureTextWithSpacing (sample_glyphs 24) ''ASHISHPROPERTIES.IN'' 1 = 300"
  "measureTextWithSpacing (sample_glyphs 18) ''ASHISHPROPERTIES.IN'' 1 = 459 / 2"
  "measureTextWithSpacing (half_glyphs 27) ''ASHISHPROPERTIES.IN'' 2 = 585 / 2"
  "measureTextWithSpacing (half_glyphs 47) ''ASHISHPROPERTIES.IN'' 3 = 1001 / 2"
  "measureTextWithSpacing (half_glyphs 46) ''ASHISHPROPERTIES.IN'' 3 = 491"
  by (simp_all add: measureTextWithSpacing_def upper_upper_TEXT fadd_def sample_glyphs_def
      half_glyphs_def rnd64_exact16)

lemma disp_values:
  "dispW sample_img w = 150" "dispH sample_img h = 150"
  "1 \<le> d \<Longrightarrow> dispW (shown_img d w' h') w = d" "1 \<le> d \<Longrightarrow> dispH (shown_img d w' h') h = d"
  by (simp_all add: dispW_def dispH_def or_else_def shown_img_def sample_img_def new_elem_def)

lemma base_font_values:
  "baseFontPx sample_img w h = 24"
  "baseFontPx (shown_img 170 w' h') w h = 27"
  "baseFontPx (shown_img 295 w' h') w h = 47"
  by (simp_all add: baseFontPx_def disp_values font_values)

lemma base_width_values:
  "baseTextW sample_glyphs TEXT sample_img w h = 300"
  "baseTextW half_glyphs TEXT (shown_img 170 w' h') w h = 585 / 2"
  "baseTextW half_glyphs TEXT (shown_img 295 w' h') w h = 1001 / 2"
  by (simp_all add: baseTextW_def base_font_values spacing_values upper_TEXT measure_values)

lemma max_width_values:
  "maxWidth 200 = 140"
  "maxWidth 325 = 8004444650209279 / 35184372088832"
  "maxWidth 715 = 8804889115230207 / 17592186044416"
  "maxWidth 716 = 8817203645461299 / 17592186044416"
  by (simp_all add: maxWidth_def width_values)

text \<open>
  Claim C8, with the arithmetic the code has. When the text at the base font size is no
  wider than 70% of the raster width (\<open>w * 0.7\<close>), the layout is: font size the larger of
  24 and \<open>round(shorter displayed side * 0.16)\<close>, letter spacing \<open>round(font size * 0.06)\<close>,
  margin the larger of 12 and \<open>round(min(w, h) * 0.035)\<close>, anchor
  \<open>x = max(0, w - textWidth - margin)\<close> and baseline \<open>y = max(fontSize + margin, h - margin)\<close>;
  the text width is the one measured at the base font size. The displayed sides are
  \<open>dispW\<close> and \<open>dispH\<close>; every product, sum and difference is the binary64 one.
\<close>

theorem no_shrink_layout:
  assumes "\<not> baseTextW m txt img w h > maxWidth w"
  shows "fontPx (bake_layout m txt img w h) =
           max 24 (js_round (fmul (min (dispW img w) (dispH img h)) (rnd64 (16 / 100))))
    \<and> letterSpacing (bake_layout m txt img w h) =
           js_round (fmul (of_int (fontPx (bake_layout m txt img w h))) (rnd64 (6 / 100)))
    \<and> textW (bake_layout m txt img w h) = baseTextW m txt img w h
    \<and> margin (bake_layout m txt img w h) =
           max 12 (js_round (fmul (of_nat (min w h)) (rnd64 (35 / 1000))))
    \<and> xStart (bake_layout m txt img w h) =
           max 0 (fsub (fsub (of_nat w) (textW (bake_layout m txt img w h)))
                       (of_int (margin (bake_layout m txt img w h))))
    \<and> baseline (bake_layout m txt img w h) =
           max (fadd (of_int (fontPx (bake_layout m txt img w h)))
                     (of_int (margin (bake_layout m txt img w h))))
               (fsub (of_nat h) (of_int (margin (bake_layout m txt img w h))))"
  using assms by (simp add: bake_layout_def baseFontPx_def Let_def)

text \<open>
  An instance where the roundings matter: an image of 716 by 600 shown at 295 pixels,
  with glyphs half an em wide. The font size is \<open>round(47.2) = 47\<close>, the letter spacing
  \<open>round(2.82) = 3\<close>, the text measures 500.5 and 70% of the width is 501.2.
\<close>

theorem no_shrink_layout_witness:
  "\<not> baseTextW half_glyphs TEXT (shown_img 295 716 600) 716 600 > maxWidth 716
   \<and> fontPx (bake_layout half_glyphs TEXT (shown_img 295 716 600) 716 600) = 47
   \<and> letterSpacing (bake_layout half_glyphs TEXT (shown_img 295 716 600) 716 600) = 3
   \<and> textW (bake_layout half_glyphs TEXT (shown_img 295 716 600) 716 600) = 1001 / 2
   \<and> margin (bake_layout half_glyphs TEXT (shown_img 295 716 600) 716 600) = 21
   \<and> xStart (bake_layout half_glyphs TEXT (shown_img 295 716 600) 716 600) = 389 / 2
   \<and> baseline (bake_layout half_glyphs TEXT (shown_img 295 716 600) 716 600) = 579"
proof -
  let ?L = "bake_layout half_glyphs TEXT (shown_img 295 716 600) 716 600"
  have h: "\<not> baseTextW half_glyphs TEXT (shown_img 295 716 600) 716 600 > maxWidth 716"
    by (simp add: base_width_values max_width_values)
  note T = no_shrink_layout [OF h]
  from T have f: "fontPx ?L = 47" by (simp add: disp_values font_values)
  from T have t: "textW ?L = 1001 / 2" by (simp add: base_width_values)
  from T have m: "margin ?L = 21" by (simp add: floor_values)
  from T have "letterSpacing ?L = js_round (fmul (of_int (fontPx ?L)) (rnd64 (6 / 100)))"
    by blast
  then have l: "letterSpacing ?L = 3" by (simp add: f spacing_values)
  from T have "xStart ?L = max 0 (fsub (fsub (of_nat 716) (textW ?L)) (of_int (margin ?L)))"
    by blast
  then have x: "xStart ?L = 389 / 2" by (simp add: t m fsub_def rnd64_exact16)
  from T have "baseline ?L = max (fadd (of_int (fontPx ?L)) (of_int (margin ?L)))
                               (fsub (of_nat 600) (of_int (margin ?L)))"
    by blast
  then have b: "baseline ?L = 579" by (simp add: f m fadd_def fsub_def rnd64_exact16)
  from h f l t m x b show ?thesis by blast
qed

text \<open>
  One pixel of raster width less and the shrink pass runs, although 70% of 715 is 500.5
  and the text is no wider: \<open>715 * 0.7\<close> is 500.49999999999994 in binary64. The font size
  becomes 46 and the text measures 491.
\<close>

lemma shrink_pass_taken_at_715:
  "baseTextW half_glyphs TEXT (shown_img 295 715 600) 715 600 = 1001 / 2
   \<and> maxWidth 715 < 1001 / 2
   \<and> fontPx (bake_layout half_glyphs TEXT (shown_img 295 715 600) 715 600) = 46
   \<and> textW (bake_layout half_glyphs TEXT (shown_img 295 715 600) 715 600) = 491"
proof -
  let ?L = "bake_layout half_glyphs TEXT (shown_img 295 715 600) 715 600"
  have w: "maxWidth 715 < 1001 / 2" by (simp add: max_width_values)
  have f: "fontPx ?L = 46"
    using w by (simp add: bake_layout_def Let_def base_width_values base_font_values
        max_width_values floor_values)
  have "textW ?L = measureTextWithSpacing (half_glyphs 46) (toUpperCase TEXT) 3"
    using w by (simp add: bake_layout_def Let_def base_width_values base_font_values
        max_width_values floor_values spacing_values)
  then have "textW ?L = 491" by (simp only: upper_TEXT measure_values)
  with w f show ?thesis by (simp add: base_width_values)
qed

text \<open>
  Claim C3, as the code has it. When the text at the base font size is wider than 70% of
  the raster width, the font size becomes the larger of 18 and
  \<open>floor(base font size * (maxWidth / measured width))\<close>, quotient and product being the
  binary64 ones; it is strictly below the base font size; the letter spacing is
  recomputed as \<open>round(font size * 0.06)\<close> and the text is measured again with it. For a
  raster width of 200 and a text measuring 300, \<open>maxWidth\<close> is 140 and the font size is the
  larger of 18 and \<open>floor(base font size * (140 / 300))\<close>. No bound on the width measured
  again is part of the statement: the floor of 18 pixels stands against it.
\<close>

theorem shrink_pass:
  assumes "baseTextW m txt img w h > maxWidth w"
  shows "fontPx (bake_layout m txt img w h) =
           max 18 \<lfloor>fmul (of_int (baseFontPx img w h))
                     (fdiv (maxWidth w) (baseTextW m txt img w h))\<rfloor>
    \<and> fontPx (bake_layout m txt img w h) < baseFontPx img w h
    \<and> letterSpacing (bake_layout m txt img w h) =
           js_round (fmul (of_int (fontPx (bake_layout m txt img w h))) (rnd64 (6 / 100)))
    \<and> textW (bake_layout m txt img w h) =
           measureTextWithSpacing (m (fontPx (bake_layout m txt img w h))) (toUpperCase txt)
             (of_int (letterSpacing (bake_layout m txt img w h)))
    \<and> (w = 200 \<and> baseTextW m txt img w h = 300 \<longrightarrow>
          fontPx (bake_layout m txt img w h)
            = max 18 \<lfloor>fmul (of_int (baseFontPx img w h)) (fdiv 140 300)\<rfloor>)"
proof -
  let ?f0 = "baseFontPx img w h" and ?t0 = "baseTextW m txt img w h"
  let ?L = "bake_layout m txt img w h"
  have f: "fontPx ?L = max 18 \<lfloor>fmul (of_int ?f0) (fdiv (maxWidth w) ?t0)\<rfloor>"
    using assms by (simp add: bake_layout_def Let_def)
  have f1: "1 \<le> ?f0" using baseFontPx_ge [of img w h] by linarith
  have "\<lfloor>fmul (of_int ?f0) (fdiv (maxWidth w) ?t0)\<rfloor> < ?f0"
    using assms f1 unfolding baseTextW_def Let_def by (intro shrink_below) simp_all
  then have less: "fontPx ?L < ?f0"
    using baseFontPx_ge [of img w h] by (simp add: f)
  have ls: "letterSpacing ?L = js_round (fmul (of_int (fontPx ?L)) (rnd64 (6 / 100)))"
    by (simp add: bake_layout_def Let_def)
  have tw: "textW ?L = measureTextWithSpacing (m (fontPx ?L)) (toUpperCase txt)
                         (of_int (letterSpacing ?L))"
    using assms by (simp add: bake_layout_def Let_def)
  have inst: "w = 200 \<and> ?t0 = 300 \<longrightarrow>
                fontPx ?L = max 18 \<lfloor>fmul (of_int ?f0) (fdiv 140 300)\<rfloor>"
  proof
    assume a: "w = 200 \<and> ?t0 = 300"
    then have w: "w = 200" and t: "?t0 = 300" by blast+
    have "maxWidth w = 140" by (simp only: w max_width_values)
    with t show "fontPx ?L = max 18 \<lfloor>fmul (of_int ?f0) (fdiv 140 300)\<rfloor>"
      by (simp only: f)
  qed
  from f less ls tw inst show ?thesis by blast
qed

text \<open>
  The claim as the specification states it fails on the bound of the final width. At
  raster width 200, with the watermark text measuring 300 pixels at the base font size of
  24, the font size stops at the floor of 18 pixels and the text, measured again, is
  229.5 pixels wide: more than 140 pixels plus one pixel of tolerance.
\<close>

theorem shrink_floor_too_wide:
  "baseTextW sample_glyphs TEXT sample_img 200 200 = 300
   \<and> fontPx (bake_layout sample_glyphs TEXT sample_img 200 200) = 18
   \<and> textW (bake_layout sample_glyphs TEXT sample_img 200 200) = 459 / 2
   \<and> \<not> textW (bake_layout sample_glyphs TEXT sample_img 200 200) \<le> 140 + 1"
proof -
  let ?L = "bake_layout sample_glyphs TEXT sample_img 200 200"
  have f: "fontPx ?L = 18"
    by (simp add: bake_layout_def Let_def base_width_values base_font_values
        max_width_values floor_values)
  have "textW ?L = measureTextWithSpacing (sample_glyphs 18) (toUpperCase TEXT) 1"
    by (simp add: bake_layout_def Let_def base_width_values base_font_values
        max_width_values floor_values spacing_values)
  then have t: "textW ?L = 459 / 2" by (simp only: upper_TEXT measure_values)
  from f t show ?thesis by (simp add: base_width_values)
qed

theorem shrink_pass_witness:
  "baseTextW sample_glyphs TEXT sample_img 200 200 > maxWidth 200
   \<and> fontPx (bake_layout sample_glyphs TEXT sample_img 200 200) = 18
   \<and> fontPx (bake_layout sample_glyphs TEXT sample_img 200 200) < baseFontPx sample_img 200 200"
proof -
  have h: "baseTextW sample_glyphs TEXT sample_img 200 200 > maxWidth 200"
    by (simp add: base_width_values max_width_values)
  have w: "(200::nat) = 200 \<and> baseTextW sample_glyphs TEXT sample_img 200 200 = 300"
    by (simp add: base_width_values)
  from shrink_pass [OF h] w have
    "fontPx (bake_layout sample_glyphs TEXT sample_img 200 200)
       = max 18 \<lfloor>fmul (of_int (baseFontPx sample_img 200 200)) (fdiv 140 300)\<rfloor>"
    and "fontPx (bake_layout sample_glyphs TEXT sample_img 200 200) < baseFontPx sample_img 200 200"
    by blast+
  then show ?thesis using h by (simp add: base_font_values floor_values)
qed

text \<open>
  The rounding decides whole pixels. For an image 325 wide shown at 170 pixels, with
  glyphs half an em wide, the base font size is 27 and the text measures 292.5;
  \<open>325 * 0.7\<close> is 227.49999999999997 in binary64 and the font size becomes 20, where
  arithmetic without rounding gives \<open>27 * (227.5 / 292.5) = 21\<close>.
\<close>

lemma shrink_pass_at_325:
  "baseTextW half_glyphs TEXT (shown_img 170 325 325) 325 325 = 585 / 2
   \<and> baseFontPx (shown_img 170 325 325) 325 325 = 27
   \<and> fontPx (bake_layout half_glyphs TEXT (shown_img 170 325 325) 325 325) = 20
   \<and> \<lfloor>27 * (325 * (7 / 10) / (585 / 2)) :: real\<rfloor> = 21"
  by (simp add: bake_layout_def Let_def base_width_values base_font_values
      max_width_values floor_values)

subsection \<open>The tree under updates\<close>

lemma node_at_update_at_same:
  "node_at t q = Some n \<Longrightarrow> node_at (update_at q f t) q = Some (f n)"
  by (induction q arbitrary: t) (auto split: if_splits)

lemma node_at_update_el_same:
  "node_at t p = Some n \<Longrightarrow> node_at (update_el p g t) p = Some (Node (g (el n)) (kids n))"
  by (simp add: update_el_def node_at_update_at_same)

lemma node_at_append:
  "node_at t (x @ y) = Some n \<Longrightarrow> \<exists>m. node_at t x = Some m"
  by (induction x arbitrary: t) (auto split: if_splits)

lemma node_at_prefix:
  "prefix x p \<Longrightarrow> node_at t p = Some n \<Longrightarrow> \<exists>m. node_at t x = Some m"
  by (auto simp: prefix_def dest: node_at_append)

text \<open>
  Attaching an overlay to a host keeps every element of the tree where it was and changes
  at most the \<open>position\<close> style of one of them.
\<close>

lemma node_at_attach:
  "node_at t r = Some n \<Longrightarrow>
   \<exists>n'. node_at (update_at q (attach ov) t) r = Some n'
        \<and> el n' = (el n)\<lparr>position := position (el n')\<rparr>"
proof (induction q arbitrary: t r)
  case Nil
  show ?case
  proof (cases r)
    case Nil
    with Nil.prems show ?thesis by (simp add: attach_def)
  next
    case (Cons i r')
    with Nil.prems show ?thesis
      by (auto simp: attach_def nth_append split: if_splits)
  qed
next
  case (Cons j q')
  show ?case
  proof (cases r)
    case Nil
    with Cons.prems show ?thesis by auto
  next
    case (Cons i r')
    show ?thesis
    proof (cases "i = j")
      case True
      with Cons.prems Cons Cons.IH [of "kids t ! j" r'] show ?thesis
        by (auto split: if_splits)
    next
      case False
      with Cons.prems Cons show ?thesis by (auto split: if_splits)
    qed
  qed
qed

lemma node_at_setOverlay:
  assumes "node_at t r = Some n"
  shows "\<exists>n'. node_at (setOverlay p t) r = Some n'
            \<and> el n' = (el n)\<lparr>position := position (el n')\<rparr>"
proof (cases "\<exists>q ov. setOverlay p t = update_at q (attach ov) t")
  case True
  then obtain q ov where "setOverlay p t = update_at q (attach ov) t" by blast
  with node_at_attach [OF assms, of q ov] show ?thesis by simp
next
  case False
  then have "setOverlay p t = t"
    by (auto simp: setOverlay_def split: option.splits if_splits)
  with assms show ?thesis by simp
qed

lemma el_at_update_el_other:
  "r \<noteq> p \<Longrightarrow> map_option el (node_at (update_el p g t) r) = map_option el (node_at t r)"
proof (induction p arbitrary: t r)
  case Nil
  then obtain i r' where "r = i # r'" by (cases r) auto
  then show ?case by (simp add: update_el_def)
next
  case (Cons j p')
  show ?case
  proof (cases r)
    case Nil
    then show ?thesis by (simp add: update_el_def)
  next
    case (Cons i r')
    show ?thesis
    proof (cases "i = j")
      case True
      with Cons Cons.prems have "r' \<noteq> p'" by simp
      from Cons.IH [OF this, of "kids t ! j"] Cons True show ?thesis
        by (simp add: update_el_def)
    next
      case False
      with Cons show ?thesis by (simp add: update_el_def)
    qed
  qed
qed

subsection \<open>Overlay fallback\<close>

lemma matches_host_position: "matches_host (e\<lparr>position := x\<rparr>) = matches_host e"
  by (simp add: matches_host_def)

lemma host_at_attach:
  assumes "node_at t r = Some n"
  shows "host_at (update_at q (attach ov) t) r = host_at t r"
proof -
  from node_at_attach [OF assms, of q ov] obtain n'
    where n': "node_at (update_at q (attach ov) t) r = Some n'"
      and e: "el n' = (el n)\<lparr>position := position (el n')\<rparr>" by blast
  have "matches_host (el n') = matches_host (el n)"
    by (subst e) (simp add: matches_host_position)
  with n' assms show ?thesis by (simp add: host_at_def)
qed

lemma closest_attach:
  assumes "node_at t p = Some n"
  shows "closest (update_at q (attach ov) t) p = closest t p"
proof -
  have "host_at (update_at q (attach ov) t) x = host_at t x"
    if "x \<in> set (rev (prefixes p))" for x
  proof -
    from that have "prefix x p" by simp
    from node_at_prefix [OF this assms] obtain m where "node_at t x = Some m" ..
    then show ?thesis by (rule host_at_attach)
  qed
  then show ?thesis unfolding closest_def by (intro find_cong) auto
qed

lemma host_of_attach:
  "node_at t p = Some n \<Longrightarrow> host_of (update_at q (attach ov) t) p = host_of t p"
  by (simp add: host_of_def closest_attach)

lemma overlays_tiles:
  "sum_list (map overlays (replicate k (Node ((new_elem t)\<lparr>textContent := x\<rparr>) []))) = 0"
  by (induction k) (simp_all add: is_overlay_def new_elem_def)

lemma overlays_make_overlay: "overlays (make_overlay e) = 1"
  by (simp add: make_overlay_def Let_def is_overlay_def new_elem_def overlays_tiles)

lemma inner_overlays_attach: "inner_overlays (attach ov h) = inner_overlays h + overlays ov"
  by (simp add: inner_overlays_def attach_def)

lemma setOverlay_holds:
  assumes "host_of t p = Some q" and "node_at t q = Some host" and "0 < inner_overlays host"
  shows "setOverlay p t = t"
  using assms by (simp add: setOverlay_def split: option.splits)

lemma setOverlay_none:
  assumes "closest t p = None" and "parentElement p = None"
  shows "setOverlay p t = t"
  using assms by (simp add: setOverlay_def host_of_def split: option.splits)

lemma setOverlay_fresh:
  assumes "node_at t p = Some img" and "host_of t p = Some q" and "node_at t q = Some host"
    and "inner_overlays host = 0"
  shows "setOverlay p t = update_at q (attach (make_overlay (el img))) t"
  using assms by (simp add: setOverlay_def)

lemma fold_fixed: "(\<And>p. p \<in> set ps \<Longrightarrow> f p t = t) \<Longrightarrow> fold f ps t = t"
  by (induction ps) auto

lemma setOverlay_shared:
  assumes p: "node_at t p = Some img" "host_of t p = Some q" "node_at t q = Some host"
    "inner_overlays host = 0"
    and ps: "\<And>p'. p' \<in> set ps \<Longrightarrow> node_at t p' \<noteq> None \<and> host_of t p' = Some q"
  shows "fold setOverlay (p # ps) t = setOverlay p t
    \<and> (\<exists>host'. node_at (setOverlay p t) q = Some host' \<and> inner_overlays host' = 1)"
proof -
  let ?ov = "make_overlay (el img)"
  let ?t = "update_at q (attach ?ov) t"
  have t': "setOverlay p t = ?t" using p by (rule setOverlay_fresh)
  have q': "node_at ?t q = Some (attach ?ov host)"
    using p(3) by (rule node_at_update_at_same)
  have one: "inner_overlays (attach ?ov host) = 1"
    using p(4) by (simp add: inner_overlays_attach overlays_make_overlay)
  have "fold setOverlay ps ?t = ?t"
  proof (rule fold_fixed)
    fix p' assume "p' \<in> set ps"
    from ps [OF this] obtain n where n: "node_at t p' = Some n" and h: "host_of t p' = Some q"
      by auto
    have "host_of ?t p' = Some q" using host_of_attach [OF n] h by simp
    then show "setOverlay p' ?t = ?t" using q' one by (intro setOverlay_holds) auto
  qed
  then have "fold setOverlay (p # ps) t = setOverlay p t" by (simp add: t')
  moreover have "\<exists>host'. node_at (setOverlay p t) q = Some host' \<and> inner_overlays host' = 1"
    using q' one by (simp add: t')
  ultimately show ?thesis by blast
qed

text \<open>
  Claim C9. (1) Applied to an image whose host (the closest matching ancestor, else the
  parent) already holds an overlay, \<open>setOverlay\<close> changes nothing. (2) Applied, in any
  number and order, to images of the tree that share a host holding no overlay, it leaves
  exactly one overlay below that host: every application after the first changes nothing.
  (3) Applied to an image with no matching ancestor and no parent element, it changes
  nothing. \<open>setOverlay\<close> has no failing branch.
\<close>

theorem overlay_once_per_host:
  "(host_of t p = Some q \<and> node_at t q = Some host \<and> 0 < inner_overlays host
      \<longrightarrow> setOverlay p t = t)
   \<and> (node_at t p = Some img \<and> host_of t p = Some q \<and> node_at t q = Some host
      \<and> inner_overlays host = 0
      \<and> (\<forall>p' \<in> set ps. node_at t p' \<noteq> None \<and> host_of t p' = Some q)
      \<longrightarrow> fold setOverlay (p # ps) t = setOverlay p t
          \<and> (\<exists>host'. node_at (fold setOverlay (p # ps) t) q = Some host'
                      \<and> inner_overlays host' = 1))
   \<and> (closest t p = None \<and> parentElement p = None \<longrightarrow> setOverlay p t = t)"
proof (intro conjI impI)
  assume "host_of t p = Some q \<and> node_at t q = Some host \<and> 0 < inner_overlays host"
  then show "setOverlay p t = t" by (blast intro: setOverlay_holds)
next
  assume a: "node_at t p = Some img \<and> host_of t p = Some q \<and> node_at t q = Some host
      \<and> inner_overlays host = 0
      \<and> (\<forall>p' \<in> set ps. node_at t p' \<noteq> None \<and> host_of t p' = Some q)"
  then have s: "fold setOverlay (p # ps) t = setOverlay p t
    \<and> (\<exists>host'. node_at (setOverlay p t) q = Some host' \<and> inner_overlays host' = 1)"
    by (intro setOverlay_shared) blast+
  then show "fold setOverlay (p # ps) t = setOverlay p t" by blast
  from s show "\<exists>host'. node_at (fold setOverlay (p # ps) t) q = Some host'
                      \<and> inner_overlays host' = 1"
    by simp
next
  assume "closest t p = None \<and> parentElement p = None"
  then show "setOverlay p t = t" by (blast intro: setOverlay_none)
qed

lemma hero_hosts:
  "host_of hero_doc [0, 0] = Some [0]" "host_of hero_doc [0, 1] = Some [0]"
  "node_at hero_doc [0, 0] = Some (Node sample_img [])"
  "node_at hero_doc [0, 1] = Some (Node (sized_img 640 480) [])"
  "inner_overlays (Node ((new_elem ''div'')\<lparr>classList := [''property-hero'']\<rparr>)
          [Node sample_img [], Node (sized_img 640 480) []]) = 0"
  by (simp_all add: host_of_def closest_def host_at_def hero_doc_def matches_host_def
      new_elem_def sample_img_def sized_img_def inner_overlays_def is_overlay_def
      parentElement_def)

theorem overlay_once_per_host_witness:
  "fold setOverlay [[0, 0], [0, 1], [0, 0], [0, 1]] hero_doc = setOverlay [0, 0] hero_doc
   \<and> (\<exists>host'. node_at (fold setOverlay [[0, 0], [0, 1], [0, 0], [0, 1]] hero_doc) [0]
                 = Some host' \<and> inner_overlays host' = 1)
   \<and> setOverlay [0, 1] (setOverlay [0, 0] hero_doc) = setOverlay [0, 0] hero_doc
   \<and> closest (Node sample_img []) [] = None \<and> parentElement [] = None
   \<and> setOverlay [] (Node sample_img []) = Node sample_img []"
proof -
  let ?host = "Node ((new_elem ''div'')\<lparr>classList := [''property-hero'']\<rparr>)
          [Node sample_img [], Node (sized_img 640 480) []]"
  have q: "node_at hero_doc [0] = Some ?host" by (simp add: hero_doc_def)
  have v: "node_at hero_doc [0, 0] \<noteq> None" "node_at hero_doc [0, 1] \<noteq> None"
    by (simp_all only: hero_hosts) simp_all
  have ps: "\<forall>p' \<in> set [[0, 1], [0, 0], [0, 1]].
              node_at hero_doc p' \<noteq> None \<and> host_of hero_doc p' = Some [0]"
  proof
    fix p' :: path
    assume "p' \<in> set [[0, 1], [0, 0], [0, 1]]"
    then consider "p' = [0, 1]" | "p' = [0, 0]" by auto
    then show "node_at hero_doc p' \<noteq> None \<and> host_of hero_doc p' = Some [0]"
      using v hero_hosts(1,2) by cases blast+
  qed
  from overlay_once_per_host [of hero_doc "[0, 0]" "[0]" ?host "Node sample_img []"
      "[[0, 1], [0, 0], [0, 1]]"] hero_hosts q ps
  have 1: "fold setOverlay [[0, 0], [0, 1], [0, 0], [0, 1]] hero_doc = setOverlay [0, 0] hero_doc"
    and 2: "\<exists>host'. node_at (fold setOverlay [[0, 0], [0, 1], [0, 0], [0, 1]] hero_doc) [0]
                 = Some host' \<and> inner_overlays host' = 1"
    by blast+
  from 1 2 obtain host' where h: "node_at (setOverlay [0, 0] hero_doc) [0] = Some host'"
    "inner_overlays host' = 1" by auto
  have e: "setOverlay [0, 0] hero_doc
             = update_at [0] (attach (make_overlay (el (Node sample_img [])))) hero_doc"
    by (rule setOverlay_fresh [OF hero_hosts(3) hero_hosts(1) q hero_hosts(5)])
  have "host_of (setOverlay [0, 0] hero_doc) [0, 1] = Some [0]"
    by (simp only: e host_of_attach [OF hero_hosts(4)] hero_hosts(2))
  with overlay_once_per_host [of "setOverlay [0, 0] hero_doc" "[0, 1]" "[0]" host'] h
  have 3: "setOverlay [0, 1] (setOverlay [0, 0] hero_doc) = setOverlay [0, 0] hero_doc"
    by simp
  have c: "closest (Node sample_img []) [] = None" "parentElement [] = None"
    by (simp_all add: closest_def host_at_def matches_host_def sample_img_def new_elem_def
        parentElement_def)
  with overlay_once_per_host [of "Node sample_img []" "[]"]
  have 4: "setOverlay [] (Node sample_img []) = Node sample_img []" by blast
  from 1 2 3 4 c show ?thesis by blast
qed


subsection \<open>The processing step\<close>

lemma sum_list_map_update_same:
  fixes f :: "'a \<Rightarrow> nat"
  assumes "i < length ks" and "f k = f (ks ! i)"
  shows "sum_list (map f (ks[i := k])) = sum_list (map f ks)"
proof -
  have "(map f ks)[i := f (ks ! i)] = map f ks"
    using assms(1) by (simp add: list_update_same_conv)
  then show ?thesis using assms(2) by (simp add: map_update)
qed

lemma overlays_update_el:
  assumes "\<And>e. is_overlay (g e) = is_overlay e"
  shows "overlays (update_el p g t) = overlays t"
proof (induction p arbitrary: t)
  case Nil
  show ?case by (cases t) (simp add: update_el_def assms)
next
  case (Cons i p)
  show ?case
  proof (cases t)
    case (Node e ks)
    show ?thesis
    proof (cases "i < length ks")
      case True
      have "overlays (update_at p (\<lambda>n. Node (g (el n)) (kids n)) (ks ! i)) = overlays (ks ! i)"
        using Cons.IH [of "ks ! i"] by (simp add: update_el_def)
      with True Node show ?thesis
        by (simp add: update_el_def sum_list_map_update_same)
    next
      case False
      with Node show ?thesis by (simp add: update_el_def)
    qed
  qed
qed

lemma overlays_split: "overlays t = (if is_overlay (el t) then 1 else 0) + inner_overlays t"
  by (cases t) (simp add: inner_overlays_def)

lemma el_update_el: "el (update_el p g t) = (if p = [] then g (el t) else el t)"
  by (cases p) (simp_all add: update_el_def)

lemma inner_overlays_update_el:
  assumes "\<And>e. is_overlay (g e) = is_overlay e"
  shows "inner_overlays (update_el p g t) = inner_overlays t"
  using overlays_update_el [of g p t, OF assms] overlays_split [of t]
    overlays_split [of "update_el p g t"]
  by (simp add: el_update_el assms split: if_splits)

lemma overlays_removed: "\<not> is_overlay (el t) \<Longrightarrow> overlays (remove_overlays t) = 0"
  by (induction t) simp

lemma inner_overlays_removed: "inner_overlays (remove_overlays t) = 0"
  by (cases t) (simp add: inner_overlays_def overlays_removed)

lemma install_fields:
  "observed (install p url img st) = observed st"
  "mo_connected (install p url img st) = mo_connected st"
  "inner_overlays (doc (install p url img st)) = inner_overlays (doc st)"
  "\<not> mo_connected st \<Longrightarrow> mo_queue (install p url img st) = mo_queue st"
  by (simp_all add: install_def Let_def log_def set_src_def revokeObjectURL_def
      inner_overlays_update_el is_overlay_def markProcessed_def split: option.splits)

lemma install_doc:
  "doc (install p url img st) =
     update_el p markProcessed
       (update_el p (\<lambda>e. e\<lparr>dataset := AList.update ''wmUrl'' url (dataset e)\<rparr>)
          (update_el p (\<lambda>e. e\<lparr>src := url\<rparr>) (doc st)))"
  by (simp add: install_def Let_def log_def set_src_def revokeObjectURL_def
      split: option.splits)

lemma install_log:
  assumes "map_of (dataset img) ''wmUrl'' = Some prev"
  shows "trace (install p url img st) =
           trace st @ [SetSrc p url, SetWmUrl p url]
             @ map Revoke (if prev \<noteq> [] \<and> startsWith prev ''blob:'' then [prev] else [])
             @ [Mark p]"
    and "revoked (install p url img st) =
           revoked st @ (if prev \<noteq> [] \<and> startsWith prev ''blob:'' then [prev] else [])"
  using assms
  by (simp_all add: install_def Let_def log_def set_src_def revokeObjectURL_def)

lemma fallback_fields:
  "observed (fallback p st) = observed st"
  "mo_connected (fallback p st) = mo_connected st"
  "mo_queue (fallback p st) = mo_queue st"
  "doc (fallback p st) = update_el p markProcessed (setOverlay p (doc st))"
  "trace (fallback p st) = trace st @ [Overlay p, Mark p]"
  "revoked (fallback p st) = revoked st"
  "inflight (fallback p st) = inflight st"
  by (simp_all add: fallback_def Let_def log_def)

lemma process_rejected:
  assumes "node_at (doc st) p = Some n" and "\<not> skips (el n)"
    and "bakeWatermark env (el n) = Rejected e"
  shows "process env p st =
           (Resolved (), fallback p (st\<lparr>inflight := remove1 p (inflight st @ [p])\<rparr>))"
  using assms by (simp add: process_def process_start_def process_settle_def)

lemma process_resolved:
  assumes "node_at (doc st) p = Some n" and "\<not> skips (el n)"
    and "bakeWatermark env (el n) = Resolved url" and "url \<noteq> []"
  shows "process env p st =
           (Resolved (), install p url (el n) (st\<lparr>inflight := remove1 p (inflight st @ [p])\<rparr>))"
  using assms by (simp add: process_def process_start_def process_settle_def)

lemma alreadyProcessed_markProcessed: "alreadyProcessed (markProcessed e)"
  by (simp add: alreadyProcessed_def markProcessed_def update_conv')

text \<open>How each kind of failure of the pipeline shows in \<open>bakeWatermark\<close>.\<close>

lemma bake_load_failure:
  "\<not> complete img \<Longrightarrow> img_signal env = Some ErrorEvent \<Longrightarrow>
   bakeWatermark env img = Rejected E_img_error"
  by (simp add: bakeWatermark_def ensureLoaded_def dispatched_def)

lemma bake_no_size:
  "complete img \<Longrightarrow> 0 < naturalWidth img \<Longrightarrow> naturalHeight img = 0 \<Longrightarrow>
   bakeWatermark env img = Rejected E_no_size"
  by (simp add: bakeWatermark_def ensureLoaded_def)

lemma bake_cors_blocked:
  "complete img \<Longrightarrow> 0 < naturalWidth img \<Longrightarrow> 0 < naturalHeight img \<Longrightarrow>
   off_signal env = Some ErrorEvent \<Longrightarrow> bakeWatermark env img = Rejected E_cors_blocked"
  by (simp add: bakeWatermark_def ensureLoaded_def)

lemma bake_export_failure:
  "complete img \<Longrightarrow> 0 < naturalWidth img \<Longrightarrow> 0 < naturalHeight img \<Longrightarrow>
   off_signal env = Some (LoadEvent ow oh) \<Longrightarrow> getContext env \<Longrightarrow>
   toBlob env = (\<lambda>c. Callback None) \<Longrightarrow> toDataURL env = (\<lambda>c. None) \<Longrightarrow>
   bakeWatermark env img = Rejected E_toDataURL"
  by (simp add: bakeWatermark_def ensureLoaded_def Let_def)

lemma bake_tainted:
  "complete img \<Longrightarrow> 0 < naturalWidth img \<Longrightarrow> 0 < naturalHeight img \<Longrightarrow>
   off_signal env = Some (LoadEvent ow oh) \<Longrightarrow> getContext env \<Longrightarrow>
   toBlob env = (\<lambda>c. Throws) \<Longrightarrow> bakeWatermark env img = Rejected E_tainted"
  by (simp add: bakeWatermark_def ensureLoaded_def Let_def)

text \<open>
  Claim C4. Whatever error the bake of an element that is not skipped rejects with,
  \<open>process\<close> catches it: its own promise resolves, it calls the overlay fallback exactly
  once and then marks the element processed, it leaves the observed set and the released
  handles alone, and every other element of the tree keeps its \<open>dataset\<close> (its processed
  marker and handle) and its \<open>src\<close>.
\<close>

theorem bake_failure_falls_back:
  assumes "node_at (doc st) p = Some n" and "\<not> skips (el n)"
    and "bakeWatermark env (el n) = Rejected e"
  shows "fst (process env p st) = Resolved ()
    \<and> trace (snd (process env p st)) = trace st @ [Overlay p, Mark p]
    \<and> doc (snd (process env p st)) = update_el p markProcessed (setOverlay p (doc st))
    \<and> (\<exists>n'. node_at (doc (snd (process env p st))) p = Some n' \<and> alreadyProcessed (el n'))
    \<and> observed (snd (process env p st)) = observed st
    \<and> revoked (snd (process env p st)) = revoked st
    \<and> (\<forall>r n0. r \<noteq> p \<and> node_at (doc st) r = Some n0 \<longrightarrow>
          (\<exists>n1. node_at (doc (snd (process env p st))) r = Some n1
                \<and> dataset (el n1) = dataset (el n0) \<and> src (el n1) = src (el n0)))"
proof -
  let ?st' = "snd (process env p st)"
  let ?T = "setOverlay p (doc st)"
  have pr: "process env p st =
      (Resolved (), fallback p (st\<lparr>inflight := remove1 p (inflight st @ [p])\<rparr>))"
    using assms by (rule process_rejected)
  have d: "doc ?st' = update_el p markProcessed ?T"
    by (simp add: pr fallback_fields)
  from node_at_setOverlay [OF assms(1), of p] obtain m where m: "node_at ?T p = Some m"
    by blast
  have marked: "\<exists>n'. node_at (doc ?st') p = Some n' \<and> alreadyProcessed (el n')"
    using node_at_update_el_same [OF m, of markProcessed]
    by (simp add: d alreadyProcessed_markProcessed)
  have others: "\<exists>n1. node_at (doc ?st') r = Some n1
                \<and> dataset (el n1) = dataset (el n0) \<and> src (el n1) = src (el n0)"
    if "r \<noteq> p \<and> node_at (doc st) r = Some n0" for r n0
  proof -
    from that have r: "r \<noteq> p" and n0: "node_at (doc st) r = Some n0" by blast+
    from node_at_setOverlay [OF n0, of p] obtain k
      where k: "node_at ?T r = Some k" and ek: "el k = (el n0)\<lparr>position := position (el k)\<rparr>"
      by blast
    have "map_option el (node_at (doc ?st') r) = Some (el k)"
      using el_at_update_el_other [OF r, of markProcessed ?T] k by (simp add: d)
    then obtain n1 where n1: "node_at (doc ?st') r = Some n1" and e1: "el n1 = el k"
      by auto
    have "dataset (el k) = dataset (el n0)" and "src (el k) = src (el n0)"
      by (subst ek, simp)+
    with n1 e1 show ?thesis by simp
  qed
  show ?thesis
    using marked others by (simp add: pr fallback_fields)
qed

lemma gallery_at: "node_at (gallery_of img) [0, 0] = Some (Node img [])"
  by (simp add: gallery_of_def)

lemma mount_doc: "doc (mount d) = d"
proof -
  have 1: "doc (io_observe p st) = doc st" for p st by (simp add: io_observe_def)
  have 2: "doc (discover p st) = doc st" for p st
    by (simp add: discover_def 1 split: option.splits)
  have 3: "doc (fold discover ps st) = doc st" for ps st
    by (induction ps arbitrary: st) (simp_all add: 2)
  show ?thesis by (simp add: mount_def observeExisting_def 3)
qed

lemma sample_not_skipped: "\<not> skips sample_img" "\<not> skips rebake_img" "\<not> skips broken_img"
  by (simp_all add: skips_def alreadyProcessed_def exclude_def or_else_def sample_img_def
      rebake_img_def broken_img_def new_elem_def)

lemma mount_plain:
  "trace (mount d) = []" "revoked (mount d) = []" "inflight (mount d) = []"
proof -
  have 1: "trace (discover p st) = trace st \<and> revoked (discover p st) = revoked st
           \<and> inflight (discover p st) = inflight st" for p st
    by (simp add: discover_def io_observe_def split: option.splits)
  have 2: "trace (fold discover ps st) = trace st \<and> revoked (fold discover ps st) = revoked st
           \<and> inflight (fold discover ps st) = inflight st" for ps st
    by (induction ps arbitrary: st) (simp_all add: 1)
  show "trace (mount d) = []" "revoked (mount d) = []" "inflight (mount d) = []"
    by (simp_all add: mount_def observeExisting_def 2)
qed

theorem bake_failure_falls_back_witness:
  "bakeWatermark blocked_env sample_img = Rejected E_cors_blocked
   \<and> \<not> skips sample_img
   \<and> fst (process blocked_env [0, 0] (mount gallery_doc)) = Resolved ()
   \<and> trace (snd (process blocked_env [0, 0] (mount gallery_doc))) = [Overlay [0, 0], Mark [0, 0]]
   \<and> (\<exists>n'. node_at (doc (snd (process blocked_env [0, 0] (mount gallery_doc)))) [0, 0] = Some n'
           \<and> alreadyProcessed (el n'))"
proof -
  have b: "bakeWatermark blocked_env sample_img = Rejected E_cors_blocked"
    by (rule bake_cors_blocked)
      (simp_all add: blocked_env_def sample_env_def sample_img_def new_elem_def)
  have n: "node_at (doc (mount gallery_doc)) [0, 0] = Some (Node sample_img [])"
    by (simp only: mount_doc gallery_doc_def gallery_at)
  have s': "\<not> skips (el (Node sample_img []))"
    and b': "bakeWatermark blocked_env (el (Node sample_img [])) = Rejected E_cors_blocked"
    by (simp_all add: sample_not_skipped b)
  note T = bake_failure_falls_back [OF n s' b']
  from T have 1: "fst (process blocked_env [0, 0] (mount gallery_doc)) = Resolved ()"
    and 2: "trace (snd (process blocked_env [0, 0] (mount gallery_doc)))
              = trace (mount gallery_doc) @ [Overlay [0, 0], Mark [0, 0]]"
    and 3: "\<exists>n'. node_at (doc (snd (process blocked_env [0, 0] (mount gallery_doc)))) [0, 0]
              = Some n' \<and> alreadyProcessed (el n')"
    by blast+
  from 2 have tr: "trace (snd (process blocked_env [0, 0] (mount gallery_doc)))
              = [Overlay [0, 0], Mark [0, 0]]"
    by (simp only: mount_plain append_Nil)
  from b sample_not_skipped(1) 1 tr 3 show ?thesis by blast
qed


text \<open>
  Claim C5. When an element that holds a previous handle in \<open>dataset.wmUrl\<close> is baked again
  and the bake resolves with a new URL (\<open>URL.createObjectURL\<close> never issues a URL twice,
  so the new URL differs from the previous one), \<open>process\<close> first installs the new URL as
  \<open>src\<close>, then records it in \<open>dataset.wmUrl\<close>, only then releases the previous handle, and
  releases it only if it is a \<open>blob:\<close> URL; the source the element shows afterwards is not
  among the handles released.
\<close>

theorem rebake_releases_after_install:
  assumes "node_at (doc st) p = Some n" and "\<not> skips (el n)"
    and "map_of (dataset (el n)) ''wmUrl'' = Some prev"
    and "bakeWatermark env (el n) = Resolved url" and "url \<noteq> []" and "url \<noteq> prev"
  shows "trace (snd (process env p st)) =
           trace st @ [SetSrc p url, SetWmUrl p url]
             @ map Revoke (if prev \<noteq> [] \<and> startsWith prev ''blob:'' then [prev] else [])
             @ [Mark p]
    \<and> revoked (snd (process env p st)) =
           revoked st @ (if prev \<noteq> [] \<and> startsWith prev ''blob:'' then [prev] else [])
    \<and> (\<exists>n'. node_at (doc (snd (process env p st))) p = Some n'
              \<and> src (el n') = url \<and> map_of (dataset (el n')) ''wmUrl'' = Some url
              \<and> alreadyProcessed (el n')
              \<and> src (el n')
                   \<notin> set (if prev \<noteq> [] \<and> startsWith prev ''blob:'' then [prev] else []))
    \<and> (\<not> startsWith prev ''blob:'' \<longrightarrow> revoked (snd (process env p st)) = revoked st)"
proof -
  let ?st0 = "st\<lparr>inflight := remove1 p (inflight st @ [p])\<rparr>"
  let ?st' = "snd (process env p st)"
  have pr: "process env p st = (Resolved (), install p url (el n) ?st0)"
    using assms(1,2,4,5) by (rule process_resolved)
  have tr: "trace ?st' =
           trace st @ [SetSrc p url, SetWmUrl p url]
             @ map Revoke (if prev \<noteq> [] \<and> startsWith prev ''blob:'' then [prev] else [])
             @ [Mark p]"
    and rv: "revoked ?st' =
           revoked st @ (if prev \<noteq> [] \<and> startsWith prev ''blob:'' then [prev] else [])"
    using install_log [OF assms(3), of p url ?st0] by (simp_all add: pr)
  let ?g1 = "\<lambda>e. e\<lparr>src := url\<rparr>"
  let ?g2 = "\<lambda>e. e\<lparr>dataset := AList.update ''wmUrl'' url (dataset e)\<rparr>"
  have d: "doc ?st' = update_el p markProcessed (update_el p ?g2 (update_el p ?g1 (doc st)))"
    by (simp add: pr install_doc)
  have 1: "node_at (update_el p ?g1 (doc st)) p = Some (Node (?g1 (el n)) (kids n))"
    using assms(1) by (rule node_at_update_el_same)
  have 2: "node_at (update_el p ?g2 (update_el p ?g1 (doc st))) p
             = Some (Node (?g2 (?g1 (el n))) (kids n))"
    using node_at_update_el_same [OF 1, of ?g2] by simp
  have 3: "node_at (doc ?st') p = Some (Node (markProcessed (?g2 (?g1 (el n)))) (kids n))"
    using node_at_update_el_same [OF 2, of markProcessed] by (simp add: d)
  have e: "src (markProcessed (?g2 (?g1 (el n)))) = url"
    "map_of (dataset (markProcessed (?g2 (?g1 (el n))))) ''wmUrl'' = Some url"
    by (simp_all add: markProcessed_def update_conv')
  have shown: "\<exists>n'. node_at (doc ?st') p = Some n'
              \<and> src (el n') = url \<and> map_of (dataset (el n')) ''wmUrl'' = Some url
              \<and> alreadyProcessed (el n')
              \<and> src (el n')
                   \<notin> set (if prev \<noteq> [] \<and> startsWith prev ''blob:'' then [prev] else [])"
    using 3 e assms(6) by (simp add: alreadyProcessed_markProcessed)
  have nb: "\<not> startsWith prev ''blob:'' \<longrightarrow> revoked ?st' = revoked st"
    by (simp add: rv)
  from tr rv shown nb show ?thesis by blast
qed

lemma bake_sample:
  "complete img \<Longrightarrow> 0 < naturalWidth img \<Longrightarrow> 0 < naturalHeight img \<Longrightarrow>
   bakeWatermark (sample_env url) img = Resolved url"
  by (simp add: bakeWatermark_def ensureLoaded_def sample_env_def Let_def)

lemma bake_sample_blob1:
  "bakeWatermark (sample_env ''blob:1'') sample_img = Resolved ''blob:1''"
  by (rule bake_sample) (simp_all add: sample_img_def new_elem_def)

lemma bake_blocked_sample: "bakeWatermark blocked_env sample_img = Rejected E_cors_blocked"
  by (rule bake_cors_blocked)
    (simp_all add: blocked_env_def sample_env_def sample_img_def new_elem_def)

theorem rebake_releases_after_install_witness:
  "map_of (dataset rebake_img) ''wmUrl'' = Some ''blob:1''
   \<and> bakeWatermark (sample_env ''blob:2'') rebake_img = Resolved ''blob:2''
   \<and> trace (snd (process (sample_env ''blob:2'') [0, 0] (mount (gallery_of rebake_img))))
       = [SetSrc [0, 0] ''blob:2'', SetWmUrl [0, 0] ''blob:2'', Revoke ''blob:1'', Mark [0, 0]]
   \<and> revoked (snd (process (sample_env ''blob:2'') [0, 0] (mount (gallery_of rebake_img))))
       = [''blob:1'']"
proof -
  let ?st = "mount (gallery_of rebake_img)"
  have n: "node_at (doc ?st) [0, 0] = Some (Node rebake_img [])"
    by (simp only: mount_doc gallery_at)
  have s: "\<not> skips (el (Node rebake_img []))"
    by (simp add: sample_not_skipped)
  have w: "map_of (dataset rebake_img) ''wmUrl'' = Some ''blob:1''"
    by (simp add: rebake_img_def)
  then have w': "map_of (dataset (el (Node rebake_img []))) ''wmUrl'' = Some ''blob:1''"
    by simp
  have b: "bakeWatermark (sample_env ''blob:2'') rebake_img = Resolved ''blob:2''"
    by (rule bake_sample) (simp_all add: rebake_img_def sample_img_def new_elem_def)
  then have b': "bakeWatermark (sample_env ''blob:2'') (el (Node rebake_img [])) = Resolved ''blob:2''"
    by simp
  have u: "''blob:2'' \<noteq> []" "''blob:2'' \<noteq> ''blob:1''" "startsWith ''blob:1'' ''blob:''"
    by (simp_all add: startsWith_def)
  note T = rebake_releases_after_install [OF n s w' b' u(1,2)]
  from T have "trace (snd (process (sample_env ''blob:2'') [0, 0] ?st))
       = trace ?st @ [SetSrc [0, 0] ''blob:2'', SetWmUrl [0, 0] ''blob:2'']
           @ map Revoke (if ''blob:1'' \<noteq> [] \<and> startsWith ''blob:1'' ''blob:'' then [''blob:1''] else [])
           @ [Mark [0, 0]]"
    and "revoked (snd (process (sample_env ''blob:2'') [0, 0] ?st))
       = revoked ?st @ (if ''blob:1'' \<noteq> [] \<and> startsWith ''blob:1'' ''blob:'' then [''blob:1''] else [])"
    by blast+
  then have "trace (snd (process (sample_env ''blob:2'') [0, 0] ?st))
       = [SetSrc [0, 0] ''blob:2'', SetWmUrl [0, 0] ''blob:2'', Revoke ''blob:1'', Mark [0, 0]]"
    and "revoked (snd (process (sample_env ''blob:2'') [0, 0] ?st)) = [''blob:1'']"
    by (simp_all add: mount_plain u(3))
  with w b show ?thesis by blast
qed

text \<open>
  Claim C10. For an image whose load has already settled without an intrinsic width
  (\<open>complete\<close> is set, \<open>naturalWidth\<close> is 0), whatever the environment: \<open>ensureLoaded\<close>
  attaches its listeners and hears nothing, so its promise stays pending; so does the
  promise of \<open>bakeWatermark\<close>; and a \<open>process\<close> that does not skip the image never gets past
  its \<open>await\<close>: its promise stays pending, the bake stays in flight, the tree is as before
  (the image is not marked processed and no overlay is attached) and nothing is logged.
\<close>

theorem failed_image_never_settles:
  assumes "complete img" and "naturalWidth img = 0"
  shows "ensureLoaded (dispatched img sig) img = Pending
    \<and> bakeWatermark env img = Pending
    \<and> (node_at (doc st) p = Some (Node img ks) \<and> \<not> skips img \<longrightarrow>
          fst (process env p st) = Pending
          \<and> doc (snd (process env p st)) = doc st
          \<and> trace (snd (process env p st)) = trace st
          \<and> inflight (snd (process env p st)) = inflight st @ [p]
          \<and> \<not> alreadyProcessed img \<and> inner_overlays (doc (snd (process env p st)))
                = inner_overlays (doc st))"
proof -
  have e: "ensureLoaded (dispatched img sig) img = Pending" for sig
    using assms by (simp add: ensureLoaded_def dispatched_def)
  then have b: "bakeWatermark env img = Pending"
    by (simp add: bakeWatermark_def)
  have "fst (process env p st) = Pending
          \<and> doc (snd (process env p st)) = doc st
          \<and> trace (snd (process env p st)) = trace st
          \<and> inflight (snd (process env p st)) = inflight st @ [p]
          \<and> \<not> alreadyProcessed img \<and> inner_overlays (doc (snd (process env p st)))
                = inner_overlays (doc st)"
    if "node_at (doc st) p = Some (Node img ks) \<and> \<not> skips img"
    using that b by (simp add: process_def process_start_def process_settle_def skips_def)
  with e b show ?thesis by blast
qed

theorem failed_image_never_settles_witness:
  "complete broken_img \<and> naturalWidth broken_img = 0 \<and> \<not> skips broken_img
   \<and> bakeWatermark (sample_env ''blob:1'') broken_img = Pending
   \<and> fst (process (sample_env ''blob:1'') [0, 0] (mount (gallery_of broken_img))) = Pending
   \<and> doc (snd (process (sample_env ''blob:1'') [0, 0] (mount (gallery_of broken_img))))
       = gallery_of broken_img
   \<and> trace (snd (process (sample_env ''blob:1'') [0, 0] (mount (gallery_of broken_img)))) = []"
proof -
  let ?st = "mount (gallery_of broken_img)"
  have c: "complete broken_img" "naturalWidth broken_img = 0"
    by (simp_all add: broken_img_def new_elem_def)
  have n: "node_at (doc ?st) [0, 0] = Some (Node broken_img [])"
    by (simp only: mount_doc gallery_at)
  note T = failed_image_never_settles [OF c, of _ "sample_env ''blob:1''" ?st "[0, 0]" "[]"]
  from T n sample_not_skipped(3)
  have "bakeWatermark (sample_env ''blob:1'') broken_img = Pending"
    and "fst (process (sample_env ''blob:1'') [0, 0] ?st) = Pending"
    and "doc (snd (process (sample_env ''blob:1'') [0, 0] ?st)) = doc ?st"
    and "trace (snd (process (sample_env ''blob:1'') [0, 0] ?st)) = trace ?st"
    by blast+
  with c sample_not_skipped(3) show ?thesis by (simp add: mount_doc mount_plain)
qed


subsection \<open>Cleanup and the mutation observer\<close>

lemma settle_fields:
  "observed (snd (process_settle out p st)) = observed st"
  "mo_connected (snd (process_settle out p st)) = mo_connected st"
  "\<not> mo_connected st \<Longrightarrow> mo_queue (snd (process_settle out p st)) = mo_queue st"
  "fst (process_settle out p st) \<noteq> Rejected e"
  by (cases out; simp add: process_settle_def install_fields fallback_fields
      split: option.splits)+

lemma settle_resolved_overlays:
  "url \<noteq> [] \<Longrightarrow>
   inner_overlays (doc (snd (process_settle (Resolved url) p st))) = inner_overlays (doc st)"
  by (simp add: process_settle_def install_fields split: option.splits)

lemma install_queues_record:
  "mo_connected st \<Longrightarrow>
   mo_queue (install p url img st) = mo_queue st @ [Mutation ''attributes'' p ''src'' []]"
  by (simp add: install_def Let_def log_def set_src_def revokeObjectURL_def
      split: option.splits)

text \<open>
  Claim C2, as the code has it. The cleanup leaves no observed element, a disconnected
  mutation observer with no queued record (so its callback does not run again) and no
  overlay in the tree; it is a total function of the state, so it can run at any point.
  A bake that settles after the cleanup, however it settles, re-registers no observer and
  does not make \<open>process\<close> reject. When it resolves with a URL, no overlay is attached.
\<close>

theorem teardown_then_settle:
  assumes "url \<noteq> []"
  shows "observed (teardown st) = [] \<and> \<not> mo_connected (teardown st)
    \<and> mo_queue (teardown st) = []
    \<and> inner_overlays (doc (teardown st)) = 0
    \<and> mo_deliver (teardown st) = teardown st
    \<and> fst (process_settle out p (teardown st)) \<noteq> Rejected e
    \<and> observed (snd (process_settle out p (teardown st))) = []
    \<and> \<not> mo_connected (snd (process_settle out p (teardown st)))
    \<and> mo_queue (snd (process_settle out p (teardown st))) = []
    \<and> inner_overlays (doc (snd (process_settle (Resolved url) p (teardown st)))) = 0"
proof -
  have t: "observed (teardown st) = []" "\<not> mo_connected (teardown st)"
    "mo_queue (teardown st) = []" "inner_overlays (doc (teardown st)) = 0"
    by (simp_all add: teardown_def inner_overlays_removed)
  have d: "mo_deliver (teardown st) = teardown st"
    using t(2) by (simp add: mo_deliver_def)
  have r: "inner_overlays (doc (snd (process_settle (Resolved url) p (teardown st)))) = 0"
    using settle_resolved_overlays [OF assms, of p "teardown st"] t(4) by simp
  have s: "fst (process_settle out p (teardown st)) \<noteq> Rejected e"
    "observed (snd (process_settle out p (teardown st))) = []"
    "\<not> mo_connected (snd (process_settle out p (teardown st)))"
    "mo_queue (snd (process_settle out p (teardown st))) = []"
    using t(1-3) by (simp_all add: settle_fields)
  from t(1-4) d r s show ?thesis by blast
qed

text \<open>
  The claim as the specification states it fails for a bake that rejects. On the gallery
  page the image comes into view and its bake is in flight; the cleanup runs and leaves
  no overlay; then the bake rejects (the cross-origin copy fails) and the gallery holds
  an overlay again: the cleanup cancels no bake in flight and \<open>process\<close> does not ask
  whether the cleanup has run.
\<close>

theorem late_reject_attaches_overlay:
  "(let st1 = io_callback [(True, [0, 0])] (mount gallery_doc);
        st2 = teardown st1;
        st3 = snd (process_settle (bakeWatermark blocked_env sample_img) [0, 0] st2)
    in inflight st1 = [[0, 0]] \<and> inner_overlays (doc st2) = 0 \<and> observed st2 = []
       \<and> inner_overlays (doc st3) = 1)"
  by (simp only: bake_blocked_sample) code_simp

lemma inflight_example: "inflight (io_callback [(True, [0, 0])] (mount gallery_doc)) = [[0, 0]]"
  by code_simp

theorem teardown_then_settle_witness:
  "''blob:1'' \<noteq> []
   \<and> inflight (io_callback [(True, [0, 0])] (mount gallery_doc)) = [[0, 0]]
   \<and> observed (teardown (io_callback [(True, [0, 0])] (mount gallery_doc))) = []
   \<and> \<not> mo_connected (teardown (io_callback [(True, [0, 0])] (mount gallery_doc)))
   \<and> inner_overlays (doc (snd (process_settle (Resolved ''blob:1'') [0, 0]
        (teardown (io_callback [(True, [0, 0])] (mount gallery_doc)))))) = 0
   \<and> observed (snd (process_settle (Resolved ''blob:1'') [0, 0]
        (teardown (io_callback [(True, [0, 0])] (mount gallery_doc))))) = []"
proof -
  have u: "''blob:1'' \<noteq> []" by simp
  note T = teardown_then_settle [OF u, of "io_callback [(True, [0, 0])] (mount gallery_doc)"
      "Resolved ''blob:1''" "[0, 0]"]
  from T u inflight_example show ?thesis by blast
qed

text \<open>
  Claim C1, which the code does not meet: what it does on the gallery page. The image
  comes into view, its bake resolves with \<open>blob:1\<close> and \<open>process\<close> installs that URL and
  marks the image processed; the write of \<open>src\<close> has queued a mutation record. When the
  mutation observer gets that record, its callback resets the marker and observes the
  image again: nothing in it tells the engine's own write from a write by the page. The
  image is still in view, so a second bake starts, and when it resolves the image is
  rewritten a second time, with no change of source by anyone but the engine.
\<close>

theorem own_src_write_restarts_processing:
  "(let st1 = io_callback [(True, [0, 0])] (mount gallery_doc);
        st2 = snd (process_settle (bakeWatermark (sample_env ''blob:1'') sample_img) [0, 0] st1);
        st3 = mo_deliver st2;
        st4 = io_callback [(True, [0, 0])] st3;
        st5 = snd (process_settle (Resolved ''blob:2'') [0, 0] st4)
    in inflight st1 = [[0, 0]]
       \<and> mo_queue st2 = [Mutation ''attributes'' [0, 0] ''src'' []]
       \<and> map_option (alreadyProcessed \<circ> el) (node_at (doc st2) [0, 0]) = Some True
       \<and> map_option (alreadyProcessed \<circ> el) (node_at (doc st3) [0, 0]) = Some False
       \<and> observed st3 = [[0, 0]]
       \<and> inflight st4 = [[0, 0]]
       \<and> trace st5 =
            [SetSrc [0, 0] ''blob:1'', SetWmUrl [0, 0] ''blob:1'', Mark [0, 0],
             SetSrc [0, 0] ''blob:2'', SetWmUrl [0, 0] ''blob:2'', Revoke ''blob:1'',
             Mark [0, 0]])"
  by (simp only: bake_sample_blob1) code_simp


end
